theory Spec2Isabelle
  imports
    Main
    "HOL-Library.Word"
    "HOL-Library.AList"
    "HOL-Library.Char_ord"
    "HOL-Library.List_Lexorder"
    "HOL-Library.Multiset"
begin

section \<open>Data model\<close>

text \<open>
  The repository has three layers in \<^verbatim>\<open>src/cas.go\<close>: the facade \<^verbatim>\<open>cas.Storage\<close>, which wraps any
  \<^verbatim>\<open>storage.Storage\<close>; the local on-disk store (\<^verbatim>\<open>blobs/\<close>, \<^verbatim>\<open>pins/\<close>, \<^verbatim>\<open>tmp/\<close>); and the directory
  importer. The packages \<^verbatim>\<open>types\<close>, \<^verbatim>\<open>schema\<close>, \<^verbatim>\<open>xattr\<close> and \<^verbatim>\<open>storage\<close> are not part of the source
  file; what the code uses of them is a parameter of the model.
\<close>

type_synonym byte = "8 word"
type_synonym u64 = "64 word"

text \<open>Errors of the operating system; \<^verbatim>\<open>os.IsNotExist(err)\<close> is \<open>err = ErrNotExist\<close>.\<close>

datatype oserr = ErrNotExist | ErrClosed | ErrIO string

text \<open>The error values the code returns, \<open>'r\<close> being the type of refs.\<close>

datatype 'r error =
    ErrNotFound
  | ErrInvalidRef
  | ErrRefMissmatch 'r 'r
  | ErrBlobCompleted
  | ErrBlobDiscarded
  | ErrNotSchema
  | ErrNotSet
  | EOF
  | Errorf string
  | OSError oserr
  | Panic string

text \<open>
  Package \<^verbatim>\<open>types\<close>: the zero value \<^verbatim>\<open>Ref{}\<close>, the hash \<^verbatim>\<open>BytesRef\<close>, the canonical string
  \<^verbatim>\<open>Ref.String\<close> and its parser \<^verbatim>\<open>ParseRef\<close>. The hash function is a parameter: every theorem below
  holds for any choice of it.
\<close>

record 'r ref_ops =
  ZeroRef :: 'r
  BytesRef :: "byte list \<Rightarrow> 'r"
  RefString :: "'r \<Rightarrow> string"
  ParseRef :: "string \<Rightarrow> 'r error + 'r"

text \<open>Modelled from the spec: \<^verbatim>\<open>Ref.Zero\<close> holds of the all-zero default value.\<close>

definition Zero :: "'r ref_ops \<Rightarrow> 'r \<Rightarrow> bool" where
  "Zero T r = (r = ZeroRef T)"

text \<open>Modelled from the spec: \<^verbatim>\<open>Ref.Empty\<close> holds of the hash of the empty byte string.\<close>

definition Empty :: "'r ref_ops \<Rightarrow> 'r \<Rightarrow> bool" where
  "Empty T r = (r = BytesRef T [])"

record 'r SizedRef =
  Ref :: 'r
  Size :: u64

text \<open>
  An \<^verbatim>\<open>io.Reader\<close> is the script of what its \<^verbatim>\<open>Read\<close> calls will return: each element is a chunk
  of bytes with the error returned along with its last byte. An exhausted script returns
  \<^verbatim>\<open>(0, io.EOF)\<close>. \<open>([b], None)\<close> is a byte with a nil error, \<open>([b], Some EOF)\<close> a byte delivered
  together with \<^verbatim>\<open>io.EOF\<close>, \<open>([], None)\<close> a read of nothing with a nil error.
\<close>

type_synonym 'r reader = "(byte list \<times> 'r error option) list"

fun Read :: "'r reader \<Rightarrow> nat \<Rightarrow> (byte list \<times> 'r error option) \<times> 'r reader" where
  "Read [] n = (([], Some EOF), [])"
| "Read ((d, e) # rest) n =
     (if length d \<le> n then ((d, e), rest)
      else ((take n d, None), (drop n d, e) # rest))"

text \<open>\<^verbatim>\<open>bytes.NewReader(b)\<close>, \<^verbatim>\<open>bytes.Buffer\<close> and an open file: the bytes, then \<^verbatim>\<open>io.EOF\<close>.\<close>

definition bytes_Reader :: "byte list \<Rightarrow> 'r reader" where
  "bytes_Reader b = (if b = [] then [] else [(b, None)])"

section \<open>The file system\<close>

text \<open>
  A file of the repository directory: its bytes, its permission bits, whether
  \<^verbatim>\<open>Mode().IsRegular()\<close> holds, and its extended attributes.
\<close>

record osfile =
  contents :: "byte list"
  perm :: nat
  regular :: bool
  xattrs :: "(string \<times> string) list"

record FileInfo =
  fi_Name :: string
  fi_Size :: nat
  fi_IsRegular :: bool

definition info :: "string \<Rightarrow> osfile \<Rightarrow> FileInfo" where
  "info n f = \<lparr>fi_Name = n, fi_Size = length (contents f), fi_IsRegular = regular f\<rparr>"

text \<open>\<^verbatim>\<open>filepath.Join(s.dir, dirBlobs, name)\<close> and \<^verbatim>\<open>filepath.Join(s.dir, dirTmp, name)\<close>.\<close>

datatype path = Blobs string | Tmp string

datatype syscall =
  SysStat | SysOpen | SysFstat | SysChmod | SysRemove | SysRename | SysClose | SysWrite
  | SysOpenDir | SysReaddir | SysGetxattr | SysTempFile

text \<open>
  The state of the repository directory. Directories are association lists in the order
  in which the file system enumerates them. \<open>fails\<close> injects the failures of the operating
  system: a system call \<open>c\<close> fails with \<open>e\<close> when \<open>fails s c = Some e\<close>. \<open>tmp_names\<close> are the
  random names \<^verbatim>\<open>ioutil.TempFile\<close> will try, in order.
\<close>

record os =
  blobs :: "(string \<times> osfile) list"
  tmp :: "(string \<times> osfile) list"
  fails :: "syscall \<Rightarrow> oserr option"
  tmp_names :: "string list"

fun lookup :: "path \<Rightarrow> os \<Rightarrow> osfile option" where
  "lookup (Blobs n) s = map_of (blobs s) n"
| "lookup (Tmp n) s = map_of (tmp s) n"

fun put :: "path \<Rightarrow> osfile \<Rightarrow> os \<Rightarrow> os" where
  "put (Blobs n) f s = s\<lparr>blobs := AList.update n f (blobs s)\<rparr>"
| "put (Tmp n) f s = s\<lparr>tmp := AList.update n f (tmp s)\<rparr>"

fun unlink :: "path \<Rightarrow> os \<Rightarrow> os" where
  "unlink (Blobs n) s = s\<lparr>blobs := AList.delete n (blobs s)\<rparr>"
| "unlink (Tmp n) s = s\<lparr>tmp := AList.delete n (tmp s)\<rparr>"

fun base_name :: "path \<Rightarrow> string" where
  "base_name (Blobs n) = n"
| "base_name (Tmp n) = n"

definition os_Stat :: "path \<Rightarrow> os \<Rightarrow> oserr + FileInfo" where
  "os_Stat p s =
     (case fails s SysStat of
        Some e \<Rightarrow> Inl e
      | None \<Rightarrow> (case lookup p s of None \<Rightarrow> Inl ErrNotExist | Some f \<Rightarrow> Inr (info (base_name p) f)))"

definition os_Chmod :: "path \<Rightarrow> nat \<Rightarrow> os \<Rightarrow> oserr option \<times> os" where
  "os_Chmod p m s =
     (case fails s SysChmod of
        Some e \<Rightarrow> (Some e, s)
      | None \<Rightarrow> (case lookup p s of
                  None \<Rightarrow> (Some ErrNotExist, s)
                | Some f \<Rightarrow> (None, put p (f\<lparr>perm := m\<rparr>) s)))"

definition os_Remove :: "path \<Rightarrow> os \<Rightarrow> oserr option \<times> os" where
  "os_Remove p s =
     (case fails s SysRemove of
        Some e \<Rightarrow> (Some e, s)
      | None \<Rightarrow> (case lookup p s of
                  None \<Rightarrow> (Some ErrNotExist, s)
                | Some f \<Rightarrow> (None, unlink p s)))"

text \<open>\<^verbatim>\<open>os.Rename\<close> replaces the target when it exists.\<close>

definition os_Rename :: "path \<Rightarrow> path \<Rightarrow> os \<Rightarrow> oserr option \<times> os" where
  "os_Rename old new s =
     (case fails s SysRename of
        Some e \<Rightarrow> (Some e, s)
      | None \<Rightarrow> (case lookup old s of
                  None \<Rightarrow> (Some ErrNotExist, s)
                | Some f \<Rightarrow> (None, put new f (unlink old s))))"

text \<open>\<^verbatim>\<open>os.Open\<close> of a file, followed by \<^verbatim>\<open>f.Stat()\<close> on the open file.\<close>

definition os_Open :: "path \<Rightarrow> os \<Rightarrow> oserr + osfile" where
  "os_Open p s =
     (case fails s SysOpen of
        Some e \<Rightarrow> Inl e
      | None \<Rightarrow> (case lookup p s of None \<Rightarrow> Inl ErrNotExist | Some f \<Rightarrow> Inr f))"

definition os_Fstat :: "path \<Rightarrow> osfile \<Rightarrow> os \<Rightarrow> oserr + FileInfo" where
  "os_Fstat p f s = (case fails s SysFstat of Some e \<Rightarrow> Inl e | None \<Rightarrow> Inr (info (base_name p) f))"

text \<open>
  Modelled from the spec: the xattr adapter's \<^verbatim>\<open>get(path, name)\<close>, which is missing from the
  source. A sentinel error (\<open>ErrNotSet\<close>) distinguishes an attribute that is not set from an
  I/O error.
\<close>

definition xattr_GetString :: "path \<Rightarrow> string \<Rightarrow> os \<Rightarrow> 'r error + string" where
  "xattr_GetString p a s =
     (case fails s SysGetxattr of
        Some e \<Rightarrow> Inl (OSError e)
      | None \<Rightarrow> (case lookup p s of
                  None \<Rightarrow> Inl (OSError ErrNotExist)
                | Some f \<Rightarrow> (case map_of (xattrs f) a of None \<Rightarrow> Inl ErrNotSet | Some v \<Rightarrow> Inr v)))"

section \<open>The local store\<close>

definition xattrSchemaType :: string where
  "xattrSchemaType = ''cas.schema.type''"

text \<open>\<^verbatim>\<open>roPerm = 0444\<close>; the cleanup uses \<^verbatim>\<open>0666\<close>.\<close>

definition roPerm :: nat where
  "roPerm = 4 * 64 + 4 * 8 + 4"

definition rwPerm :: nat where
  "rwPerm = 6 * 64 + 6 * 8 + 6"

definition blobPath :: "'r ref_ops \<Rightarrow> 'r \<Rightarrow> path" where
  "blobPath T ref = Blobs (RefString T ref)"

text \<open>
  \<^verbatim>\<open>removeIfInvalid\<close>: Go's \<^verbatim>\<open>(false, err)\<close> is \<open>Inl err\<close>, \<^verbatim>\<open>(b, nil)\<close> is \<open>Inr b\<close>.
\<close>

definition removeIfInvalid :: "'r ref_ops \<Rightarrow> FileInfo \<Rightarrow> 'r \<Rightarrow> os \<Rightarrow> ('r error + bool) \<times> os" where
  "removeIfInvalid T fi ref s =
     (if fi_Size fi \<noteq> 0 \<or> Empty T ref then (Inr False, s)
      else (case os_Chmod (blobPath T ref) rwPerm s of
              (Some e, s') \<Rightarrow> (Inl (ErrRefMissmatch ref (BytesRef T [])), s')
            | (None, s') \<Rightarrow>
                (case os_Remove (blobPath T ref) s' of
                   (Some e, s'') \<Rightarrow> (Inl (ErrRefMissmatch ref (BytesRef T [])), s'')
                 | (None, s'') \<Rightarrow> (Inr True, s''))))"

definition local_StatBlob :: "'r ref_ops \<Rightarrow> 'r \<Rightarrow> os \<Rightarrow> ('r error + u64) \<times> os" where
  "local_StatBlob T ref s =
     (if Zero T ref then (Inl ErrInvalidRef, s)
      else (case os_Stat (blobPath T ref) s of
              Inl e \<Rightarrow> (Inl (OSError e), s)
            | Inr fi \<Rightarrow>
                (case removeIfInvalid T fi ref s of
                   (Inl e, s') \<Rightarrow> (Inl e, s')
                 | (Inr invalid, s') \<Rightarrow>
                     if invalid then (Inl ErrNotFound, s')
                     else (Inr (of_nat (fi_Size fi)), s'))))"

definition local_FetchBlob ::
  "'r ref_ops \<Rightarrow> 'r \<Rightarrow> os \<Rightarrow> ('r error + 'r reader \<times> u64) \<times> os" where
  "local_FetchBlob T ref s =
     (if Zero T ref then (Inl ErrInvalidRef, s)
      else (case os_Open (blobPath T ref) s of
              Inl e \<Rightarrow> (if e = ErrNotExist then (Inl ErrNotFound, s) else (Inl (OSError e), s))
            | Inr f \<Rightarrow>
                (case os_Fstat (blobPath T ref) f s of
                   Inl e \<Rightarrow> (Inl (OSError e), s)
                 | Inr fi \<Rightarrow>
                     (case removeIfInvalid T fi ref s of
                        (Inl e, s') \<Rightarrow> (Inl e, s')
                      | (Inr invalid, s') \<Rightarrow>
                          if invalid then (Inl ErrNotFound, s')
                          else (Inr (bytes_Reader (contents f), of_nat (fi_Size fi)), s')))))"

definition local_FetchSchema ::
  "'r ref_ops \<Rightarrow> 'r \<Rightarrow> os \<Rightarrow> ('r error + 'r reader \<times> u64) \<times> os" where
  "local_FetchSchema T ref s =
     (if Zero T ref then (Inl ErrInvalidRef, s)
      else (case (xattr_GetString (blobPath T ref) xattrSchemaType s :: 'r error + string) of
              Inr typ \<Rightarrow> if typ = [] then (Inl ErrNotSchema, s) else local_FetchBlob T ref s
            | Inl e \<Rightarrow> local_FetchBlob T ref s))"

section \<open>The facade\<close>

text \<open>
  The interface \<^verbatim>\<open>storage.Storage\<close> as far as the facade calls it, over any state \<open>'s\<close> of the
  backend.
\<close>

record ('r, 's) storage =
  st_StatBlob :: "'r \<Rightarrow> 's \<Rightarrow> ('r error + u64) \<times> 's"
  st_FetchBlob :: "'r \<Rightarrow> 's \<Rightarrow> ('r error + 'r reader \<times> u64) \<times> 's"
  st_StoreBlob :: "'r \<Rightarrow> 'r reader \<Rightarrow> 's \<Rightarrow> ('r error + 'r SizedRef) \<times> 'r reader \<times> 's"

definition cas_FetchBlob ::
  "'r ref_ops \<Rightarrow> ('r, 's) storage \<Rightarrow> 'r \<Rightarrow> 's \<Rightarrow> ('r error + 'r reader \<times> u64) \<times> 's" where
  "cas_FetchBlob T st ref s =
     (if Empty T ref then (Inr (bytes_Reader [], 0), s) else st_FetchBlob st ref s)"

definition cas_StatBlob ::
  "'r ref_ops \<Rightarrow> ('r, 's) storage \<Rightarrow> 'r \<Rightarrow> 's \<Rightarrow> ('r error + u64) \<times> 's" where
  "cas_StatBlob T st ref s = (if Empty T ref then (Inr 0, s) else st_StatBlob st ref s)"

definition cas_StoreBlob ::
  "'r ref_ops \<Rightarrow> ('r, 's) storage \<Rightarrow> 'r \<Rightarrow> 'r reader \<Rightarrow> 's
     \<Rightarrow> ('r error + 'r SizedRef) \<times> 'r reader \<times> 's" where
  "cas_StoreBlob T st exp r s =
     (if Empty T exp then
        (case Read r 1 of
           ((b, err), r') \<Rightarrow>
             if err = Some EOF then (Inr \<lparr>Ref = exp, Size = 0\<rparr>, r', s)
             else (Inl (Errorf ''expected empty blob''), r', s))
      else if \<not> Zero T exp then
        (case cas_StatBlob T st exp s of
           (Inr sz, s') \<Rightarrow> (Inr \<lparr>Ref = exp, Size = sz\<rparr>, r, s')
         | (Inl e, s') \<Rightarrow> st_StoreBlob st exp r s')
      else st_StoreBlob st exp r s)"

text \<open>
  The local store as a backend. Its \<^verbatim>\<open>StoreBlob\<close> is not part of the source file and is a
  parameter.
\<close>

definition LocalStorage ::
  "'r ref_ops \<Rightarrow> ('r \<Rightarrow> 'r reader \<Rightarrow> os \<Rightarrow> ('r error + 'r SizedRef) \<times> 'r reader \<times> os)
     \<Rightarrow> ('r, os) storage" where
  "LocalStorage T sb =
     \<lparr>st_StatBlob = local_StatBlob T, st_FetchBlob = local_FetchBlob T, st_StoreBlob = sb\<rparr>"


section \<open>Writing a blob\<close>

text \<open>
  More of the operating system: \<^verbatim>\<open>ioutil.TempFile(dir, "blob_")\<close> tries the names of \<open>tmp_names\<close>
  in order, skipping those that exist already, and creates the file with mode \<^verbatim>\<open>0600\<close>;
  \<^verbatim>\<open>f.Write\<close> appends to the file; \<^verbatim>\<open>f.Close\<close> only fails when the system makes it fail. A
  write that fails is modelled as writing nothing.
\<close>

definition os_TempFile :: "os \<Rightarrow> (oserr + string) \<times> os" where
  "os_TempFile s =
     (case fails s SysTempFile of
        Some e \<Rightarrow> (Inl e, s)
      | None \<Rightarrow>
          (case dropWhile (\<lambda>n. map_of (tmp s) n \<noteq> None) (tmp_names s) of
             [] \<Rightarrow> (Inl (ErrIO ''file exists''), s\<lparr>tmp_names := []\<rparr>)
           | n # ns \<Rightarrow>
               (Inr n, put (Tmp n) \<lparr>contents = [], perm = 6 * 64, regular = True, xattrs = []\<rparr>
                         (s\<lparr>tmp_names := ns\<rparr>))))"

definition os_Write :: "path \<Rightarrow> byte list \<Rightarrow> os \<Rightarrow> (oserr + nat) \<times> os" where
  "os_Write p b s =
     (case fails s SysWrite of
        Some e \<Rightarrow> (Inl e, s)
      | None \<Rightarrow> (case lookup p s of
                  None \<Rightarrow> (Inl ErrNotExist, s)
                | Some f \<Rightarrow> (Inr (length b), put p (f\<lparr>contents := contents f @ b\<rparr>) s)))"

definition os_Close :: "os \<Rightarrow> oserr option" where
  "os_Close s = fails s SysClose"

text \<open>
  \<^verbatim>\<open>genTmpFile\<close>: the open file is known by its name in \<^verbatim>\<open>tmp/\<close>; \<open>None\<close> is Go's \<^verbatim>\<open>nil\<close>.
  (\<^verbatim>\<open>Storage.tmpFile\<close> is platform code outside the source file; the generic \<^verbatim>\<open>tmpFileGen\<close>
  stands for it.)
\<close>

record genTmpFile =
  gf :: "string option"

definition tmpFileGen :: "os \<Rightarrow> ('r error + genTmpFile) \<times> os" where
  "tmpFileGen s =
     (case os_TempFile s of
        (Inl e, s') \<Rightarrow> (Inl (OSError e), s')
      | (Inr n, s') \<Rightarrow> (Inr \<lparr>gf = Some n\<rparr>, s'))"

definition gen_Write :: "genTmpFile \<Rightarrow> byte list \<Rightarrow> os \<Rightarrow> ('r error + nat) \<times> os" where
  "gen_Write g p s =
     (case gf g of
        None \<Rightarrow> (Inl (OSError ErrClosed), s)
      | Some n \<Rightarrow> (case os_Write (Tmp n) p s of
                    (Inl e, s') \<Rightarrow> (Inl (OSError e), s')
                  | (Inr k, s') \<Rightarrow> (Inr k, s')))"

definition gen_Close :: "genTmpFile \<Rightarrow> os \<Rightarrow> 'r error option \<times> genTmpFile \<times> os" where
  "gen_Close g s =
     (case gf g of
        None \<Rightarrow> (None, g, s)
      | Some n \<Rightarrow> (None, g\<lparr>gf := None\<rparr>, snd (os_Remove (Tmp n) s)))"

definition gen_Commit ::
  "'r ref_ops \<Rightarrow> genTmpFile \<Rightarrow> 'r \<Rightarrow> os \<Rightarrow> 'r error option \<times> genTmpFile \<times> os" where
  "gen_Commit T g ref s =
     (case gf g of
        None \<Rightarrow> (Some (OSError ErrClosed), g, s)
      | Some name \<Rightarrow>
          (case os_Close s of
             Some e \<Rightarrow> (Some (OSError e), g\<lparr>gf := None\<rparr>, snd (os_Remove (Tmp name) s))
           | None \<Rightarrow>
               (case os_Chmod (Tmp name) roPerm s of
                  (Some e, s1) \<Rightarrow> (Some (OSError e), g\<lparr>gf := None\<rparr>, snd (os_Remove (Tmp name) s1))
                | (None, s1) \<Rightarrow>
                    (case os_Rename (Tmp name) (blobPath T ref) s1 of
                       (Some e, s2) \<Rightarrow>
                         (Some (OSError e), g\<lparr>gf := None\<rparr>, snd (os_Remove (Tmp name) s2))
                     | (None, s2) \<Rightarrow> (None, g\<lparr>gf := None\<rparr>, s2)))))"

text \<open>
  Modelled from the spec: the streaming hasher \<^verbatim>\<open>storage.Hash()\<close>, which is missing from the
  source. It is a sink with \<^verbatim>\<open>write\<close>, \<^verbatim>\<open>size\<close>, \<^verbatim>\<open>complete\<close> and \<^verbatim>\<open>close\<close>; \<^verbatim>\<open>complete\<close> finalizes
  the hash and returns the \<^verbatim>\<open>SizedRef\<close> of the bytes written, and a \<^verbatim>\<open>write\<close> after \<^verbatim>\<open>complete\<close>
  fails with the completed-error. Its \<^verbatim>\<open>commit\<close> and \<^verbatim>\<open>close\<close> have nothing to do.
\<close>

record hashWriter =
  hw_buf :: "byte list"
  hw_completed :: bool

definition Hash :: hashWriter where
  "Hash = \<lparr>hw_buf = [], hw_completed = False\<rparr>"

definition hw_Write :: "hashWriter \<Rightarrow> byte list \<Rightarrow> ('r error + nat) \<times> hashWriter" where
  "hw_Write h p =
     (if hw_completed h then (Inl ErrBlobCompleted, h)
      else (Inr (length p), h\<lparr>hw_buf := hw_buf h @ p\<rparr>))"

definition hw_Size :: "hashWriter \<Rightarrow> u64" where
  "hw_Size h = of_nat (length (hw_buf h))"

definition hw_Complete :: "'r ref_ops \<Rightarrow> hashWriter \<Rightarrow> ('r error + 'r SizedRef) \<times> hashWriter" where
  "hw_Complete T h =
     (Inr \<lparr>Ref = BytesRef T (hw_buf h), Size = of_nat (length (hw_buf h))\<rparr>,
      h\<lparr>hw_completed := True\<rparr>)"

definition hw_Close :: "hashWriter \<Rightarrow> 'r error option \<times> hashWriter" where
  "hw_Close h = (None, h)"

definition hw_Commit :: "hashWriter \<Rightarrow> 'r error option \<times> hashWriter" where
  "hw_Commit h = (None, h)"

text \<open>\<^verbatim>\<open>blobWriter\<close>; the context and its write deadline are not modelled.\<close>

record 'r blobWriter =
  bw_f :: "genTmpFile option"
  bw_sr :: "'r SizedRef"
  bw_hw :: hashWriter

definition BeginBlob :: "'r ref_ops \<Rightarrow> os \<Rightarrow> ('r error + 'r blobWriter) \<times> os" where
  "BeginBlob T s =
     (case tmpFileGen s of
        (Inl e, s') \<Rightarrow> (Inl e, s')
      | (Inr f, s') \<Rightarrow>
          (Inr \<lparr>bw_f = Some f, bw_sr = \<lparr>Ref = ZeroRef T, Size = 0\<rparr>, bw_hw = Hash\<rparr>, s'))"

definition bw_Size :: "'r blobWriter \<Rightarrow> u64" where
  "bw_Size w = hw_Size (bw_hw w)"

definition bw_Write ::
  "'r blobWriter \<Rightarrow> byte list \<Rightarrow> os \<Rightarrow> ('r error + nat) \<times> 'r blobWriter \<times> os" where
  "bw_Write w p s =
     (case hw_Write (bw_hw w) p of
        (Inl e, h) \<Rightarrow> (Inl e, w\<lparr>bw_hw := h\<rparr>, s)
      | (Inr k, h) \<Rightarrow>
          (case bw_f w of
             None \<Rightarrow> (Inl ErrBlobCompleted, w\<lparr>bw_hw := h\<rparr>, s)
           | Some f \<Rightarrow> (case gen_Write f p s of (res, s') \<Rightarrow> (res, w\<lparr>bw_hw := h\<rparr>, s'))))"

definition bw_Complete ::
  "'r ref_ops \<Rightarrow> 'r blobWriter \<Rightarrow> ('r error + 'r SizedRef) \<times> 'r blobWriter" where
  "bw_Complete T w =
     (case hw_Complete T (bw_hw w) of
        (Inl e, h) \<Rightarrow> (Inl e, w\<lparr>bw_hw := h\<rparr>)
      | (Inr sr, h) \<Rightarrow>
          if \<not> Zero T (Ref (bw_sr w)) then (Inr sr, w\<lparr>bw_hw := h\<rparr>)
          else (Inr sr, w\<lparr>bw_hw := h, bw_sr := sr\<rparr>))"

definition bw_Close :: "'r blobWriter \<Rightarrow> os \<Rightarrow> 'r error option \<times> 'r blobWriter \<times> os" where
  "bw_Close w s =
     (case hw_Close (bw_hw w) of
        (Some e, h) \<Rightarrow> (Some e, w\<lparr>bw_hw := h\<rparr>, s)
      | (None, h) \<Rightarrow>
          (case bw_f w of
             None \<Rightarrow> (None, w\<lparr>bw_hw := h\<rparr>, s)
           | Some f \<Rightarrow>
               (case gen_Close f s of (err, f', s') \<Rightarrow> (err, w\<lparr>bw_hw := h, bw_f := None\<rparr>, s'))))"

definition bw_Commit ::
  "'r ref_ops \<Rightarrow> 'r blobWriter \<Rightarrow> os \<Rightarrow> 'r error option \<times> 'r blobWriter \<times> os" where
  "bw_Commit T w s =
     (case hw_Commit (bw_hw w) of
        (Some e, h) \<Rightarrow> (Some e, w\<lparr>bw_hw := h\<rparr>, s)
      | (None, h) \<Rightarrow>
          (let w1 = w\<lparr>bw_hw := h\<rparr> in
           case bw_f w1 of
             None \<Rightarrow> (Some ErrBlobDiscarded, w1, s)
           | Some f \<Rightarrow>
               (case (if Zero T (Ref (bw_sr w1)) then bw_Complete T w1
                      else (Inr (bw_sr w1), w1)) of
                  (Inl e, w2) \<Rightarrow> (Some e, w2, s)
                | (Inr sr, w2) \<Rightarrow>
                    (case gen_Commit T f (Ref (bw_sr w2)) s of
                       (err, f', s') \<Rightarrow> (err, w2\<lparr>bw_f := None\<rparr>, s')))))"

text \<open>A caller writing the chunks \<open>ps\<close> one after the other, stopping at the first error.\<close>

fun bw_Writes ::
  "'r blobWriter \<Rightarrow> byte list list \<Rightarrow> os \<Rightarrow> 'r error option \<times> 'r blobWriter \<times> os" where
  "bw_Writes w [] s = (None, w, s)"
| "bw_Writes w (p # ps) s =
     (case bw_Write w p s of
        (Inl e, w', s') \<Rightarrow> (Some e, w', s')
      | (Inr k, w', s') \<Rightarrow> bw_Writes w' ps s')"


text \<open>
  A caller of the blob writer: begin a blob, write the chunks \<open>ps\<close>, call \<^verbatim>\<open>Complete\<close> or
  leave that to \<^verbatim>\<open>Commit\<close>, and commit; on an error, close the writer.
\<close>

definition write_blob ::
  "'r ref_ops \<Rightarrow> byte list list \<Rightarrow> bool \<Rightarrow> os \<Rightarrow> 'r error option \<times> os" where
  "write_blob T ps complete s =
     (case BeginBlob T s of
        (Inl e, s1) \<Rightarrow> (Some e, s1)
      | (Inr w, s1) \<Rightarrow>
          (case bw_Writes w ps s1 of
             (Some e, w2, s2) \<Rightarrow> (Some e, snd (snd (bw_Close w2 s2)))
           | (None, w2, s2) \<Rightarrow>
               (case (if complete then bw_Complete T w2 else (Inr (bw_sr w2), w2)) of
                  (Inl e, w3) \<Rightarrow> (Some e, snd (snd (bw_Close w3 s2)))
                | (Inr sr, w3) \<Rightarrow>
                    (case bw_Commit T w3 s2 of
                       (Some e, w4, s4) \<Rightarrow> (Some e, snd (snd (bw_Close w4 s4)))
                     | (None, w4, s4) \<Rightarrow> (None, s4)))))"

text \<open>
  A caller is free to go on after a call that failed. A session with a blob writer is
  \<^verbatim>\<open>BeginBlob\<close>, any sequence of calls of \<^verbatim>\<open>Write\<close> and \<^verbatim>\<open>Complete\<close>, whatever each of them
  returns, and \<^verbatim>\<open>Commit\<close>. The failures of the operating system may change from one call to
  the next: each call comes with the failures in force while it runs. The session returns
  the error of each call, the error of \<^verbatim>\<open>Commit\<close> and the final state. \<open>offered\<close> are the bytes
  handed to \<^verbatim>\<open>Write\<close>, in order.
\<close>

type_synonym faults = "syscall \<Rightarrow> oserr option"

datatype call = CallWrite "byte list" | CallComplete

fun bw_call ::
  "'r ref_ops \<Rightarrow> call \<Rightarrow> 'r blobWriter \<Rightarrow> os \<Rightarrow> 'r error option \<times> 'r blobWriter \<times> os" where
  "bw_call T (CallWrite p) w s =
     (case bw_Write w p s of
        (Inl e, w', s') \<Rightarrow> (Some e, w', s')
      | (Inr k, w', s') \<Rightarrow> (None, w', s'))"
| "bw_call T CallComplete w s =
     (case bw_Complete T w of
        (Inl e, w') \<Rightarrow> (Some e, w', s)
      | (Inr sr, w') \<Rightarrow> (None, w', s))"

fun bw_calls ::
  "'r ref_ops \<Rightarrow> (faults \<times> call) list \<Rightarrow> 'r blobWriter \<Rightarrow> os
     \<Rightarrow> 'r error option list \<times> 'r blobWriter \<times> os" where
  "bw_calls T [] w s = ([], w, s)"
| "bw_calls T ((env, c) # cs) w s =
     (case bw_call T c w (s\<lparr>fails := env\<rparr>) of
        (err, w', s') \<Rightarrow>
          (case bw_calls T cs w' s' of (errs, w'', s'') \<Rightarrow> (err # errs, w'', s'')))"

definition blob_session ::
  "'r ref_ops \<Rightarrow> (faults \<times> call) list \<Rightarrow> faults \<Rightarrow> os
     \<Rightarrow> 'r error option list \<times> 'r error option \<times> os" where
  "blob_session T cs env s =
     (case BeginBlob T s of
        (Inl e, s1) \<Rightarrow> ([], Some e, s1)
      | (Inr w, s1) \<Rightarrow>
          (case bw_calls T cs w s1 of
             (errs, w2, s2) \<Rightarrow>
               (case bw_Commit T w2 (s2\<lparr>fails := env\<rparr>) of
                  (err, w3, s3) \<Rightarrow> (errs, err, s3))))"

fun offered :: "(faults \<times> call) list \<Rightarrow> byte list" where
  "offered [] = []"
| "offered ((env, CallWrite p) # cs) = p @ offered cs"
| "offered ((env, CallComplete) # cs) = offered cs"

text \<open>
  \<^verbatim>\<open>io.Copy(w, r)\<close> into a blob writer: read until \<^verbatim>\<open>io.EOF\<close>, writing what each read returns;
  the buffer is 32 KiB.
\<close>

function io_Copy ::
  "'r blobWriter \<Rightarrow> 'r reader \<Rightarrow> os \<Rightarrow> 'r error option \<times> 'r blobWriter \<times> 'r reader \<times> os" where
  "io_Copy w r s =
     (case Read r 32768 of
        ((b, err), r') \<Rightarrow>
          (case (if b = [] then (Inr 0, w, s) else bw_Write w b s) of
             (Inl e, w', s') \<Rightarrow> (Some e, w', r', s')
           | (Inr k, w', s') \<Rightarrow>
               if k < length b then (Some (Errorf ''short write''), w', r', s')
               else (case err of
                       Some e \<Rightarrow> (if e = EOF then None else Some e, w', r', s')
                     | None \<Rightarrow> io_Copy w' r' s')))"
  by pat_completeness auto

definition reader_weight :: "'r reader \<Rightarrow> nat" where
  "reader_weight r = sum_list (map (\<lambda>(d, e). Suc (length d)) r)"

lemma Read_weight:
  "((b, None), r') = Read r n \<Longrightarrow> 0 < n \<Longrightarrow> reader_weight r' < reader_weight r"
  by (cases r; cases n) (auto simp: reader_weight_def split: if_splits)

termination io_Copy
  by (relation "measure (\<lambda>(w, r, s). reader_weight r)") (auto dest: Read_weight)

text \<open>
  Modelled from the spec: the local store's \<^verbatim>\<open>StoreBlob\<close>, which is missing from the source:
  open a writer, copy, complete, check the ref against \<open>expected\<close> (if given) yielding
  \<open>RefMismatch\<close> on disagreement, commit.
\<close>

definition local_StoreBlob ::
  "'r ref_ops \<Rightarrow> 'r \<Rightarrow> 'r reader \<Rightarrow> os \<Rightarrow> ('r error + 'r SizedRef) \<times> 'r reader \<times> os" where
  "local_StoreBlob T exp r s =
     (case BeginBlob T s of
        (Inl e, s1) \<Rightarrow> (Inl e, r, s1)
      | (Inr w, s1) \<Rightarrow>
          (case io_Copy w r s1 of
             (Some e, w2, r2, s2) \<Rightarrow> (Inl e, r2, snd (snd (bw_Close w2 s2)))
           | (None, w2, r2, s2) \<Rightarrow>
               (case bw_Complete T w2 of
                  (Inl e, w3) \<Rightarrow> (Inl e, r2, snd (snd (bw_Close w3 s2)))
                | (Inr sr, w3) \<Rightarrow>
                    if \<not> Zero T exp \<and> Ref sr \<noteq> exp
                    then (Inl (ErrRefMissmatch exp (Ref sr)), r2, snd (snd (bw_Close w3 s2)))
                    else (case bw_Commit T w3 s2 of
                            (Some e, w4, s4) \<Rightarrow> (Inl e, r2, snd (snd (bw_Close w4 s4)))
                          | (None, w4, s4) \<Rightarrow> (Inr sr, r2, s4)))))"

section \<open>Iterating over the blobs\<close>

text \<open>\<^verbatim>\<open>os.Open(it.dir)\<close> and \<^verbatim>\<open>d.Readdir(-1)\<close> on \<^verbatim>\<open>blobs/\<close>.\<close>

definition os_OpenDir :: "os \<Rightarrow> oserr option" where
  "os_OpenDir s = fails s SysOpenDir"

definition os_Readdir :: "os \<Rightarrow> oserr + FileInfo list" where
  "os_Readdir s =
     (case fails s SysReaddir of
        Some e \<Rightarrow> Inl e
      | None \<Rightarrow> Inr (map (\<lambda>(n, f). info n f) (blobs s)))"

record 'r dirIterator =
  it_err :: "'r error option"
  it_infos :: "FileInfo list option"
  it_sr :: "'r SizedRef"

definition IterateBlobs :: "'r ref_ops \<Rightarrow> 'r dirIterator" where
  "IterateBlobs T = \<lparr>it_err = None, it_infos = None, it_sr = \<lparr>Ref = ZeroRef T, Size = 0\<rparr>\<rparr>"

text \<open>
  The \<^verbatim>\<open>for\<close> loop of \<^verbatim>\<open>dirIterator.Next\<close> over \<^verbatim>\<open>it.infos\<close>. When \<^verbatim>\<open>ParseRef\<close> fails, the ref
  it returns with the error is taken to be the zero ref.
\<close>

fun next_loop ::
  "'r ref_ops \<Rightarrow> FileInfo list \<Rightarrow> 'r dirIterator \<Rightarrow> os \<Rightarrow> bool \<times> 'r dirIterator \<times> os" where
  "next_loop T [] it s = (False, it\<lparr>it_infos := Some []\<rparr>, s)"
| "next_loop T (i # rest) it s =
     (if \<not> fi_IsRegular i then next_loop T rest it s
      else
        (case ParseRef T (fi_Name i) of
           Inl e \<Rightarrow>
             (False,
              it\<lparr>it_infos := Some rest, it_err := Some e,
                 it_sr := \<lparr>Ref = ZeroRef T, Size = of_nat (fi_Size i)\<rparr>\<rparr>, s)
         | Inr ref \<Rightarrow>
             (let it1 = it\<lparr>it_sr := \<lparr>Ref = ref, Size = of_nat (fi_Size i)\<rparr>\<rparr> in
              case removeIfInvalid T i ref s of
                (Inl e, s') \<Rightarrow> (False, it1\<lparr>it_infos := Some rest, it_err := Some e\<rparr>, s')
              | (Inr invalid, s') \<Rightarrow>
                  if invalid then next_loop T rest it1 s'
                  else (True, it1\<lparr>it_infos := Some rest\<rparr>, s'))))"

text \<open>
  \<^verbatim>\<open>sort.Slice\<close> by name is not a stable sort; the names of one directory are distinct, and
  then every sorting algorithm returns the same list (\<open>sort_key\<close> is insertion sort).
\<close>

definition Next :: "'r ref_ops \<Rightarrow> 'r dirIterator \<Rightarrow> os \<Rightarrow> bool \<times> 'r dirIterator \<times> os" where
  "Next T it0 s =
     (let it = it0\<lparr>it_sr := \<lparr>Ref = ZeroRef T, Size = 0\<rparr>\<rparr> in
      if it_err it \<noteq> None then (False, it, s)
      else
        (case it_infos it of
           None \<Rightarrow>
             (case os_OpenDir s of
                Some e \<Rightarrow>
                  if e = ErrNotExist then (False, it\<lparr>it_infos := Some []\<rparr>, s)
                  else (False, it\<lparr>it_err := Some (OSError e)\<rparr>, s)
              | None \<Rightarrow>
                  (case os_Readdir s of
                     Inl e \<Rightarrow> (False, it\<lparr>it_err := Some (OSError e)\<rparr>, s)
                   | Inr infos \<Rightarrow> next_loop T (sort_key fi_Name infos) it s))
         | Some infos \<Rightarrow> next_loop T infos it s))"

definition it_weight :: "'r dirIterator \<Rightarrow> os \<Rightarrow> nat" where
  "it_weight it s =
     (if it_err it \<noteq> None then 0
      else case it_infos it of None \<Rightarrow> Suc (length (blobs s)) | Some infos \<Rightarrow> length infos)"

lemma next_loop_True:
  "next_loop T infos it s = (True, it', s') \<Longrightarrow> it_err it = None \<Longrightarrow>
     it_err it' = None \<and> (\<exists>rest. it_infos it' = Some rest \<and> length rest < length infos)"
proof (induction T infos it s rule: next_loop.induct)
  case (1 T it s)
  then show ?case by simp
next
  case (2 T i rest it s)
  show ?case
  proof (cases "fi_IsRegular i")
    case False
    with 2 show ?thesis by fastforce
  next
    case True
    then show ?thesis
      using "2.prems" "2.IH"(2)
      by (fastforce simp: Let_def split: sum.splits prod.splits if_splits)
  qed
qed

lemma Next_weight:
  "(True, it', s') = Next T it s \<Longrightarrow> it_weight it' s' < it_weight it s"
  by (auto simp: Next_def Let_def it_weight_def os_Readdir_def
      split: if_splits option.splits sum.splits dest!: next_loop_True [OF sym])

text \<open>
  The consumer's loop \<^verbatim>\<open>for it.Next() { ... it.SizedRef() ... }\<close>: the items the iterator
  yields until \<^verbatim>\<open>Next\<close> returns false, and the iterator and the store it leaves.
\<close>

function drain ::
  "'r ref_ops \<Rightarrow> 'r dirIterator \<Rightarrow> os \<Rightarrow> 'r SizedRef list \<times> 'r dirIterator \<times> os" where
  "drain T it s =
     (case Next T it s of
        (True, it', s') \<Rightarrow> (case drain T it' s' of (xs, r) \<Rightarrow> (it_sr it' # xs, r))
      | (False, it', s') \<Rightarrow> ([], it', s'))"
  by pat_completeness auto

termination drain
  by (relation "measure (\<lambda>(T, it, s). it_weight it s)") (auto dest: Next_weight)


declare drain.simps [simp del]

text \<open>
  The loop of \<^verbatim>\<open>Next\<close> and the consumer's loop taken together, as one recursion over the
  list of infos: the items yielded, the iterator's error and the store that is left.
\<close>

fun walk :: "'r ref_ops \<Rightarrow> FileInfo list \<Rightarrow> os \<Rightarrow> 'r SizedRef list \<times> 'r error option \<times> os" where
  "walk T [] s = ([], None, s)"
| "walk T (i # rest) s =
     (if \<not> fi_IsRegular i then walk T rest s
      else
        (case ParseRef T (fi_Name i) of
           Inl e \<Rightarrow> ([], Some e, s)
         | Inr ref \<Rightarrow>
             (case removeIfInvalid T i ref s of
                (Inl e, s') \<Rightarrow> ([], Some e, s')
              | (Inr invalid, s') \<Rightarrow>
                  if invalid then walk T rest s'
                  else (case walk T rest s' of
                          (xs, r) \<Rightarrow> (\<lparr>Ref = ref, Size = of_nat (fi_Size i)\<rparr> # xs, r)))))"

text \<open>
  What the spec says of the iterator, in its words: \<^verbatim>\<open>blobs/\<close> is enumerated in ascending
  filename order (\<open>listing\<close>); entries that are not regular files are skipped; an invalid ref
  filename surfaces an error and terminates the iterator (\<open>spec_accepted\<close> are the entries
  before it, \<open>spec_err\<close> the error); the invalid-blob check is applied and the entries it
  cleaned up are skipped (\<open>crashed\<close>, \<open>spec_items\<close>) and removed (\<open>spec_healed\<close>).
\<close>

definition listing :: "os \<Rightarrow> FileInfo list" where
  "listing s = sort_key fi_Name (map (\<lambda>(n, f). info n f) (blobs s))"

definition parses :: "'r ref_ops \<Rightarrow> FileInfo \<Rightarrow> bool" where
  "parses T i = (case ParseRef T (fi_Name i) of Inr r \<Rightarrow> True | Inl e \<Rightarrow> False)"

definition ref_of :: "'r ref_ops \<Rightarrow> FileInfo \<Rightarrow> 'r" where
  "ref_of T i = (case ParseRef T (fi_Name i) of Inr r \<Rightarrow> r | Inl e \<Rightarrow> ZeroRef T)"

definition crashed :: "'r ref_ops \<Rightarrow> FileInfo \<Rightarrow> bool" where
  "crashed T i = (fi_Size i = 0 \<and> \<not> Empty T (ref_of T i))"

definition spec_accepted :: "'r ref_ops \<Rightarrow> FileInfo list \<Rightarrow> FileInfo list" where
  "spec_accepted T infos = takeWhile (parses T) (filter fi_IsRegular infos)"

definition spec_items :: "'r ref_ops \<Rightarrow> FileInfo list \<Rightarrow> 'r SizedRef list" where
  "spec_items T infos =
     map (\<lambda>i. \<lparr>Ref = ref_of T i, Size = of_nat (fi_Size i)\<rparr>)
       (filter (\<lambda>i. \<not> crashed T i) (spec_accepted T infos))"

definition spec_err :: "'r ref_ops \<Rightarrow> FileInfo list \<Rightarrow> 'r error option" where
  "spec_err T infos =
     (case dropWhile (parses T) (filter fi_IsRegular infos) of
        [] \<Rightarrow> None
      | i # rest \<Rightarrow> (case ParseRef T (fi_Name i) of Inl e \<Rightarrow> Some e | Inr r \<Rightarrow> None))"

definition spec_healed :: "'r ref_ops \<Rightarrow> FileInfo list \<Rightarrow> os \<Rightarrow> os" where
  "spec_healed T infos s =
     s\<lparr>blobs := filter (\<lambda>(n, f). n \<notin> fi_Name ` set (filter (crashed T) (spec_accepted T infos)))
                  (blobs s)\<rparr>"

section \<open>Importing a directory\<close>

text \<open>
  The schema objects the importer encodes. \<^verbatim>\<open>Count\<close> is a Go \<^verbatim>\<open>uint\<close> (64 bits on the usual
  platforms), \<^verbatim>\<open>Size\<close> a \<^verbatim>\<open>uint64\<close>: their additions wrap around. Package \<^verbatim>\<open>schema\<close> is not
  part of the source file: the encoder and the type tag of \<^verbatim>\<open>DirEntry\<close> are parameters, and
  \<^verbatim>\<open>schema.List\<close> has the two fields the spec's data model gives it.
\<close>

record 'r DirEntry =
  de_Ref :: 'r
  de_Size :: u64
  de_Count :: u64
  de_Name :: string

record 'r schema_List =
  l_Elem :: string
  l_List :: "'r list"

datatype 'r object =
    ObjDirEntry "'r DirEntry"
  | ObjInlineList string "'r object list"
  | ObjList "'r schema_List"

record 'r schema_ops =
  Encode :: "'r object \<Rightarrow> 'r error + byte list"
  typeDirEnt :: string

definition DefaultDir :: string where
  "DefaultDir = ''.cas''"

definition maxDirEntries :: nat where
  "maxDirEntries = 1024"

definition StoreSchema ::
  "'r ref_ops \<Rightarrow> 'r schema_ops \<Rightarrow> ('r, 's) storage \<Rightarrow> 'r object \<Rightarrow> 's
     \<Rightarrow> ('r error + 'r SizedRef) \<times> 's" where
  "StoreSchema T S st obj s =
     (case Encode S obj of
        Inl e \<Rightarrow> (Inl e, s)
      | Inr buf \<Rightarrow>
          (case cas_StoreBlob T st (BytesRef T buf) (bytes_Reader buf) s of
             (res, r', s') \<Rightarrow> (res, s')))"

definition storeDirList ::
  "'r ref_ops \<Rightarrow> 'r schema_ops \<Rightarrow> ('r, 's) storage \<Rightarrow> 'r DirEntry list \<Rightarrow> 's
     \<Rightarrow> ('r error + 'r SizedRef \<times> 'r DirEntry) \<times> 's" where
  "storeDirList T S st list s =
     (let cnt = fold (\<lambda>e cnt. cnt + (de_Count e + 1)) list 0;
          size = fold (\<lambda>e size. size + de_Size e) list 0;
          olist = map ObjDirEntry list;
          m = ObjInlineList (typeDirEnt S) olist
      in case StoreSchema T S st m s of
           (Inl e, s') \<Rightarrow> (Inl e, s')
         | (Inr sr, s') \<Rightarrow>
             (Inr (sr, \<lparr>de_Ref = Ref sr, de_Size = size, de_Count = cnt, de_Name = []\<rparr>), s'))"

text \<open>The second argument of \<^verbatim>\<open>storeDirJoin\<close>, the page of child lists, is not used.\<close>

definition storeDirJoin ::
  "'r ref_ops \<Rightarrow> 'r schema_ops \<Rightarrow> ('r, 's) storage \<Rightarrow> 'r list \<Rightarrow> 'r schema_List list \<Rightarrow> 's
     \<Rightarrow> ('r error + 'r SizedRef \<times> 'r schema_List) \<times> 's" where
  "storeDirJoin T S st refs list s =
     (let m = \<lparr>l_Elem = typeDirEnt S, l_List = refs\<rparr>
      in case StoreSchema T S st (ObjList m) s of
           (Inl e, s') \<Rightarrow> (Inl e, s')
         | (Inr sr, s') \<Rightarrow> (Inr (sr, m), s'))"

lemma maxDirEntries_pos: "0 < maxDirEntries"
  by (simp add: maxDirEntries_def)

text \<open>
  The first loop of \<^verbatim>\<open>storeDir\<close>, \<^verbatim>\<open>for len(base) > 0\<close>: pages of entries are stored as inline
  lists, and their refs are gathered in lists of refs, the first level of the tree.
\<close>

function leafLoop ::
  "'r ref_ops \<Rightarrow> 'r schema_ops \<Rightarrow> ('r, 's) storage \<Rightarrow> 'r DirEntry list \<Rightarrow> 'r schema_List
     \<Rightarrow> 'r schema_List list \<Rightarrow> 'r list \<Rightarrow> 's
     \<Rightarrow> ('r error + 'r schema_List list \<times> 'r list) \<times> 's" where
  "leafLoop T S st base cur level refs s =
     (if base = [] then (Inr (level, refs), s)
      else
        (let page = take maxDirEntries base;
             base' = drop (length page) base
         in case storeDirList T S st page s of
              (Inl e, s1) \<Rightarrow> (Inl e, s1)
            | (Inr (sr, de), s1) \<Rightarrow>
                (let cur1 = cur\<lparr>l_List := l_List cur @ [Ref sr]\<rparr> in
                 if maxDirEntries \<le> length (l_List cur1) \<or> base' = [] then
                   (let cur2 = cur1\<lparr>l_Elem := typeDirEnt S\<rparr> in
                    case StoreSchema T S st (ObjList cur2) s1 of
                      (Inl e, s2) \<Rightarrow> (Inl e, s2)
                    | (Inr sr2, s2) \<Rightarrow>
                        leafLoop T S st base' \<lparr>l_Elem = [], l_List = []\<rparr>
                          (level @ [cur2]) (refs @ [Ref sr2]) s2)
                 else leafLoop T S st base' cur1 level refs s1)))"
  by pat_completeness auto

termination leafLoop
  by (relation "measure (\<lambda>(T, S, st, base, cur, level, refs, s). length base)")
     (auto simp: maxDirEntries_pos)

text \<open>
  The inner loop of the second phase, \<^verbatim>\<open>for len(level) > 0\<close>: pages of one level are joined
  into the lists of the next level. \<^verbatim>\<open>refs[:len(page)]\<close> is out of range when there are fewer
  refs than lists.
\<close>

function joinLoop ::
  "'r ref_ops \<Rightarrow> 'r schema_ops \<Rightarrow> ('r, 's) storage \<Rightarrow> 'r schema_List list \<Rightarrow> 'r list
     \<Rightarrow> 'r schema_List list \<Rightarrow> 'r list \<Rightarrow> 's
     \<Rightarrow> ('r error + 'r schema_List list \<times> 'r list) \<times> 's" where
  "joinLoop T S st level refs newLevel newRefs s =
     (if level = [] then (Inr (newLevel, newRefs), s)
      else
        (let page = take maxDirEntries level in
         if length refs < length page then (Inl (Panic ''slice bounds out of range''), s)
         else
           (let pref = take (length page) refs;
                level' = drop (length page) level;
                refs' = drop (length page) refs
            in case storeDirJoin T S st pref page s of
                 (Inl e, s1) \<Rightarrow> (Inl e, s1)
               | (Inr (sr, cur), s1) \<Rightarrow>
                   joinLoop T S st level' refs' (newLevel @ [cur]) (newRefs @ [Ref sr]) s1)))"
  by pat_completeness auto

termination joinLoop
  by (relation "measure (\<lambda>(T, S, st, level, refs, newLevel, newRefs, s). length level)")
     (auto simp: maxDirEntries_pos)

lemma ceil_div_step:
  fixes n F :: nat
  assumes "0 < F" "0 < n"
  shows "Suc ((n - min n F + (F - 1)) div F) = (n + (F - 1)) div F"
proof (cases "n \<le> F")
  case True
  obtain k where k: "n = Suc k" using assms(2) by (cases n) auto
  obtain G where G: "F = Suc G" using assms(1) by (cases F) auto
  have "k < F" using True k by simp
  then have "(k + F) div F = k div F + 1"
    using assms(1) by (intro div_add_self2) simp
  then have "(k + F) div F = Suc 0"
    using \<open>k < F\<close> by simp
  moreover have "n + (F - 1) = k + F" by (simp add: k G)
  moreover have "(F - 1) div F = 0" by (simp add: G)
  ultimately show ?thesis using True by (simp add: min_def)
next
  case False
  obtain G where G: "F = Suc G" using assms(1) by (cases F) auto
  obtain d where d: "n = d + F" using False by (metis le_add_diff_inverse2 nat_le_linear)
  have "(d + G + F) div F = (d + G) div F + 1"
    using assms(1) by (intro div_add_self2) simp
  then have "(d + G + F) div F = Suc ((d + G) div F)"
    by simp
  moreover have "n + (F - 1) = d + G + F" by (simp add: d G)
  moreover have "n - min n F + (F - 1) = d + G" by (simp add: d G min_def)
  ultimately show ?thesis by simp
qed

lemma joinLoop_length:
  "joinLoop T S st level refs newLevel newRefs s = (Inr (l, r), s') \<Longrightarrow>
     length l = length newLevel + (length level + (maxDirEntries - 1)) div maxDirEntries"
proof (induction T S st level refs newLevel newRefs s rule: joinLoop.induct)
  case (1 T S st level refs newLevel newRefs s)
  show ?case
  proof (cases "level = []")
    case True
    with "1.prems" show ?thesis
      using maxDirEntries_pos by simp
  next
    case False
    define page where "page = take maxDirEntries level"
    have page: "length page = min (length level) maxDirEntries"
      by (simp add: page_def)
    from False "1.prems" obtain sr cur s1 where
      j: "storeDirJoin T S st (take (length page) refs) page s = (Inr (sr, cur), s1)"
      and n: "\<not> length refs < length page"
      and rec: "joinLoop T S st (drop (length page) level) (drop (length page) refs)
                  (newLevel @ [cur]) (newRefs @ [Ref sr]) s1 = (Inr (l, r), s')"
      by (simp add: Let_def page_def split: if_splits sum.splits prod.splits)
    have "length l = length (newLevel @ [cur])
        + (length (drop (length page) level) + (maxDirEntries - 1)) div maxDirEntries"
      using "1.IH" [OF False page_def n refl refl refl j [symmetric] refl refl rec] .
    moreover have "Suc ((length level - min (length level) maxDirEntries + (maxDirEntries - 1))
        div maxDirEntries) = (length level + (maxDirEntries - 1)) div maxDirEntries"
      using False by (intro ceil_div_step maxDirEntries_pos) simp
    ultimately show ?thesis
      by (simp add: page)
  qed
qed

text \<open>The outer loop of the second phase, \<^verbatim>\<open>for len(level) > 1\<close>.\<close>

function joinLevels ::
  "'r ref_ops \<Rightarrow> 'r schema_ops \<Rightarrow> ('r, 's) storage \<Rightarrow> 'r schema_List list \<Rightarrow> 'r list \<Rightarrow> 's
     \<Rightarrow> ('r error + 'r schema_List list \<times> 'r list) \<times> 's" where
  "joinLevels T S st level refs s =
     (if 1 < length level then
        (case joinLoop T S st level refs [] [] s of
           (Inl e, s1) \<Rightarrow> (Inl e, s1)
         | (Inr (newLevel, newRefs), s1) \<Rightarrow> joinLevels T S st newLevel newRefs s1)
      else (Inr (level, refs), s))"
  by pat_completeness auto

lemma pages_less:
  assumes "1 < (n::nat)"
  shows "(n + (maxDirEntries - 1)) div maxDirEntries < n"
proof -
  obtain n' where n: "n = Suc (Suc n')"
    using assms by (cases n; cases "n - 1") auto
  have "n + (maxDirEntries - 1) < n * maxDirEntries"
    by (simp add: n maxDirEntries_def)
  then show ?thesis
    using maxDirEntries_pos by (simp add: less_mult_imp_div_less)
qed

termination joinLevels
proof (relation "measure (\<lambda>(T, S, st, level, refs, s). length level)", goal_cases)
  case 1
  show ?case by simp
next
  case (2 T S st level refs s x1 x2 y xa ya)
  then have "joinLoop T S st level refs [] [] s = (Inr (xa, ya), x2)"
    by simp
  from joinLoop_length [OF this] pages_less [OF 2(1)] show ?case
    by simp
qed

declare leafLoop.simps [simp del] joinLoop.simps [simp del] joinLevels.simps [simp del]


text \<open>
  The part of \<^verbatim>\<open>storeDir\<close> that follows \<^verbatim>\<open>sort.Slice\<close>: a short directory is one inline list;
  a longer one is a tree of lists, and the entry returned for it has no count and no size
  (the aggregation is commented out in the source). \<^verbatim>\<open>level[0]\<close> is out of range when the
  level is empty.
\<close>

definition packDir ::
  "'r ref_ops \<Rightarrow> 'r schema_ops \<Rightarrow> ('r, 's) storage \<Rightarrow> 'r DirEntry list \<Rightarrow> 's
     \<Rightarrow> ('r error + 'r SizedRef \<times> 'r DirEntry) \<times> 's" where
  "packDir T S st base s =
     (if length base \<le> maxDirEntries then storeDirList T S st base s
      else
        (case leafLoop T S st base \<lparr>l_Elem = [], l_List = []\<rparr> [] [] s of
           (Inl e, s1) \<Rightarrow> (Inl e, s1)
         | (Inr (level, refs), s1) \<Rightarrow>
             (case joinLevels T S st level refs s1 of
                (Inl e, s2) \<Rightarrow> (Inl e, s2)
              | (Inr (level', refs'), s2) \<Rightarrow>
                  (case level' of
                     [] \<Rightarrow> (Inl (Panic ''index out of range''), s2)
                   | top0 # _ \<Rightarrow>
                       (case StoreSchema T S st (ObjList top0) s2 of
                          (Inl e, s3) \<Rightarrow> (Inl e, s3)
                        | (Inr sr, s3) \<Rightarrow>
                            (Inr (sr, \<lparr>de_Ref = Ref sr, de_Size = 0, de_Count = 0,
                                       de_Name = []\<rparr>), s3))))))"

text \<open>
  The directory being imported: a file with its payload \<open>'f\<close>, or a directory with the
  entries \<^verbatim>\<open>Readdir\<close> returns, in the order in which it returns them. The two optional errors
  of a directory are the failure of \<^verbatim>\<open>os.Open\<close> and the failure of \<^verbatim>\<open>Readdir\<close> after the
  entries listed.
\<close>

datatype 'f fsnode =
    FsFile string 'f
  | FsDir string "oserr option" "'f fsnode list" "oserr option"

fun fs_Name :: "'f fsnode \<Rightarrow> string" where
  "fs_Name (FsFile n f) = n"
| "fs_Name (FsDir n oe cs re) = n"

text \<open>
  \<^verbatim>\<open>storeAsFile\<close> is a parameter of \<^verbatim>\<open>storeDir\<close>: called with the name and the payload of a
  file and the flag \<^verbatim>\<open>indexOnly\<close>, it returns the file's entry or an error. Its body reads
  the file through a \<^verbatim>\<open>FileDesc\<close>, the cache of refs in the extended attributes and the blob
  writers of package \<^verbatim>\<open>storage\<close>, which are not part of the source file; each of its three
  returns builds \<^verbatim>\<open>DirEntry{Ref, Size, Name}\<close> with the name of the file.
\<close>

type_synonym ('r, 's, 'f) storeAsFile =
  "string \<Rightarrow> 'f \<Rightarrow> bool \<Rightarrow> 's \<Rightarrow> ('r error + 'r DirEntry) \<times> 's"

text \<open>
  \<^verbatim>\<open>storeDir\<close>, and the loop over the entries of the directory that collects \<^verbatim>\<open>base\<close>. A path
  that is not a directory cannot be listed.
\<close>

fun storeDir ::
  "'r ref_ops \<Rightarrow> 'r schema_ops \<Rightarrow> ('r, 's) storage \<Rightarrow> ('r, 's, 'f) storeAsFile \<Rightarrow> bool
     \<Rightarrow> 'f fsnode \<Rightarrow> 's \<Rightarrow> ('r error + 'r SizedRef \<times> 'r DirEntry) \<times> 's"
and collectDir ::
  "'r ref_ops \<Rightarrow> 'r schema_ops \<Rightarrow> ('r, 's) storage \<Rightarrow> ('r, 's, 'f) storeAsFile \<Rightarrow> bool
     \<Rightarrow> 'f fsnode list \<Rightarrow> 'r DirEntry list \<Rightarrow> 's \<Rightarrow> ('r error + 'r DirEntry list) \<times> 's"
where
  "storeDir T S st saf index (FsFile n f) s = (Inl (OSError (ErrIO ''not a directory'')), s)"
| "storeDir T S st saf index (FsDir n oe cs re) s =
     (case oe of
        Some e \<Rightarrow> (Inl (OSError e), s)
      | None \<Rightarrow>
          (case collectDir T S st saf index cs [] s of
             (Inl e, s1) \<Rightarrow> (Inl e, s1)
           | (Inr base, s1) \<Rightarrow>
               (case re of
                  Some e \<Rightarrow> (Inl (OSError e), s1)
                | None \<Rightarrow> packDir T S st (sort_key de_Name base) s1)))"
| "collectDir T S st saf index [] base s = (Inr base, s)"
| "collectDir T S st saf index (FsFile n f # cs) base s =
     (if n = DefaultDir then collectDir T S st saf index cs base s
      else
        (case saf n f index s of
           (Inl e, s1) \<Rightarrow> (Inl e, s1)
         | (Inr ent, s1) \<Rightarrow> collectDir T S st saf index cs (base @ [ent]) s1))"
| "collectDir T S st saf index (FsDir n oe cs' re # cs) base s =
     (if n = DefaultDir then collectDir T S st saf index cs base s
      else
        (case storeDir T S st saf index (FsDir n oe cs' re) s of
           (Inl e, s1) \<Rightarrow> (Inl e, s1)
         | (Inr (sr, de), s1) \<Rightarrow>
             collectDir T S st saf index cs (base @ [de\<lparr>de_Ref := Ref sr, de_Name := n\<rparr>]) s1))"


text \<open>
  The invariant of a blob writer that has been given the bytes \<open>B\<close>: its temporary file
  holds \<open>B\<close>, its hasher has hashed \<open>B\<close>, and its \<^verbatim>\<open>sr\<close> is still the zero value or, once
  completed, the hash of \<open>B\<close>.
\<close>

definition writing :: "'r ref_ops \<Rightarrow> 'r blobWriter \<Rightarrow> os \<Rightarrow> byte list \<Rightarrow> bool" where
  "writing T w s B =
     (\<exists>n f. bw_f w = Some \<lparr>gf = Some n\<rparr> \<and> lookup (Tmp n) s = Some f \<and> contents f = B
        \<and> regular f \<and> xattrs f = [] \<and> hw_buf (bw_hw w) = B
        \<and> (Zero T (Ref (bw_sr w)) \<or> (hw_completed (bw_hw w) \<and> Ref (bw_sr w) = BytesRef T B)))"

text \<open>
  A store is healthy when storing a schema object always succeeds (the encoder and the
  backend never fail).
\<close>

definition healthy :: "'r ref_ops \<Rightarrow> 'r schema_ops \<Rightarrow> ('r, 's) storage \<Rightarrow> bool" where
  "healthy T S st = (\<forall>obj s. \<exists>sr s'. StoreSchema T S st obj s = (Inr sr, s'))"

text \<open>
  What the importer needs of its parameters for its result to be a function of the tree. A
  backend is faithful when the blob it stores under the hash of a buffer is returned under
  that hash. \<^verbatim>\<open>storeAsFile\<close> is stable when it returns, for the same file, the same
  entry from every state of the store (same content ref, same size), named after the file.
\<close>

definition faithful :: "'r ref_ops \<Rightarrow> ('r, 's) storage \<Rightarrow> bool" where
  "faithful T st =
     (\<forall>buf s sr rd' s'.
        st_StoreBlob st (BytesRef T buf) (bytes_Reader buf) s = (Inr sr, rd', s') \<longrightarrow>
        Ref sr = BytesRef T buf)"

definition saf_stable :: "('r, 's, 'f) storeAsFile \<Rightarrow> bool" where
  "saf_stable saf =
     (\<forall>n f index s t e e' s' t'.
        saf n f index s = (Inr e, s') \<and> saf n f index t = (Inr e', t') \<longrightarrow>
        e' = e \<and> de_Name e = n)"

text \<open>
  A directory holds no two entries of the same name (then the list that \<^verbatim>\<open>sort.Slice\<close>
  leaves does not depend on the sorting algorithm). A tree is a reordering of another
  when both hold the same entries and each directory lists them in some order of its own:
  the order in which \<^verbatim>\<open>Readdir\<close> returns the entries is the only difference.
\<close>

fun distinct_names :: "'f fsnode \<Rightarrow> bool" where
  "distinct_names (FsFile n f) = True"
| "distinct_names (FsDir n oe cs re) =
     (distinct (map fs_Name cs) \<and> list_all distinct_names cs)"

inductive reordered :: "'f fsnode \<Rightarrow> 'f fsnode \<Rightarrow> bool" where
  reordered_File: "reordered (FsFile n f) (FsFile n f)"
| reordered_Dir:
    "list_all2 reordered cs cs' \<Longrightarrow> mset cs'' = mset cs' \<Longrightarrow>
       reordered (FsDir n oe cs re) (FsDir n oe cs'' re)"

text \<open>
  The ref under which \<^verbatim>\<open>StoreSchema\<close> stores an object, and the entries that \<^verbatim>\<open>storeDir\<close>
  can collect for one member of a directory, from any state of the store.
\<close>

definition objRef :: "'r ref_ops \<Rightarrow> 'r schema_ops \<Rightarrow> 'r object \<Rightarrow> 'r" where
  "objRef T S obj = (case Encode S obj of Inr buf \<Rightarrow> BytesRef T buf | Inl e \<Rightarrow> ZeroRef T)"

definition entry_of ::
  "'r ref_ops \<Rightarrow> 'r schema_ops \<Rightarrow> ('r, 's) storage \<Rightarrow> ('r, 's, 'f) storeAsFile \<Rightarrow> bool
     \<Rightarrow> 'f fsnode \<Rightarrow> 'r DirEntry \<Rightarrow> bool" where
  "entry_of T S st saf index c e =
     (case c of
        FsFile n f \<Rightarrow> (\<exists>s u. saf n f index s = (Inr e, u))
      | FsDir n oe cs re \<Rightarrow>
          (\<exists>s u sr de. storeDir T S st saf index c s = (Inr (sr, de), u)
             \<and> e = de\<lparr>de_Ref := Ref sr, de_Name := n\<rparr>))"

section \<open>A small instance\<close>

text \<open>
  An instance of package \<^verbatim>\<open>types\<close> for the closed examples below: refs are numbers, the zero
  ref is 0, and the hash of a byte string is its length plus one.
\<close>

definition demo_ops :: "nat ref_ops" where
  "demo_ops =
     \<lparr>ZeroRef = 0,
      BytesRef = (\<lambda>b. Suc (length b)),
      RefString = (\<lambda>r. ''ref-'' @ replicate r (CHR ''i'')),
      ParseRef = (\<lambda>n. if take 4 n = ''ref-'' \<and> drop 4 n = replicate (length n - 4) (CHR ''i'')
                       then Inr (length n - 4) else Inl (Errorf ''invalid ref''))\<rparr>"

definition demo_blob :: "byte list \<Rightarrow> osfile" where
  "demo_blob b = \<lparr>contents = b, perm = roPerm, regular = True, xattrs = []\<rparr>"

definition demo_store :: "(string \<times> osfile) list \<Rightarrow> os" where
  "demo_store bs = \<lparr>blobs = bs, tmp = [], fails = (\<lambda>c. None), tmp_names = [''blob_1'']\<rparr>"

definition demo_local :: "(nat, os) storage" where
  "demo_local = LocalStorage demo_ops (local_StoreBlob demo_ops)"

definition is_RefMissmatch :: "'r error \<Rightarrow> bool" where
  "is_RefMissmatch e = (case e of ErrRefMissmatch a b \<Rightarrow> True | _ \<Rightarrow> False)"

definition demo_tagged :: "byte list \<Rightarrow> string \<Rightarrow> osfile" where
  "demo_tagged b tag =
     \<lparr>contents = b, perm = roPerm, regular = True, xattrs = [(''cas.schema.type'', tag)]\<rparr>"

text \<open>
  An in-memory backend, an encoder and a \<^verbatim>\<open>storeAsFile\<close> for the examples of the importer:
  the backend keeps the blobs in an association list, the encoding of an object is as
  long as the object has parts, and the payload of a file is its size.
\<close>

definition mem_StoreBlob ::
  "'r ref_ops \<Rightarrow> 'r \<Rightarrow> 'r reader \<Rightarrow> ('r \<times> byte list) list
     \<Rightarrow> ('r error + 'r SizedRef) \<times> 'r reader \<times> ('r \<times> byte list) list" where
  "mem_StoreBlob T exp rd s =
     (let data = concat (map fst rd); ref = BytesRef T data
      in if \<not> Zero T exp \<and> ref \<noteq> exp then (Inl (ErrRefMissmatch exp ref), [], s)
         else (Inr \<lparr>Ref = ref, Size = of_nat (length data)\<rparr>, [], AList.update ref data s))"

definition memStorage :: "'r ref_ops \<Rightarrow> ('r, ('r \<times> byte list) list) storage" where
  "memStorage T =
     \<lparr>st_StatBlob = (\<lambda>r s. case map_of s r of
                              None \<Rightarrow> (Inl ErrNotFound, s)
                            | Some b \<Rightarrow> (Inr (of_nat (length b)), s)),
      st_FetchBlob = (\<lambda>r s. case map_of s r of
                               None \<Rightarrow> (Inl ErrNotFound, s)
                             | Some b \<Rightarrow> (Inr (bytes_Reader b, of_nat (length b)), s)),
      st_StoreBlob = mem_StoreBlob T\<rparr>"

definition demo_schema :: "nat schema_ops" where
  "demo_schema =
     \<lparr>Encode = (\<lambda>obj. Inr (case obj of
                             ObjDirEntry e \<Rightarrow> [1]
                           | ObjInlineList ty os \<Rightarrow> 2 # replicate (length os) 0
                           | ObjList l \<Rightarrow> 3 # replicate (length (l_List l)) 0)),
      typeDirEnt = ''cas:DirEntry''\<rparr>"

definition demo_saf :: "(nat, (nat \<times> byte list) list, nat) storeAsFile" where
  "demo_saf n f indexOnly s =
     (Inr \<lparr>de_Ref = Suc f, de_Size = of_nat f, de_Count = 0, de_Name = n\<rparr>, s)"

text \<open>A directory of blobs with a crash artifact, a subdirectory and a foreign file.\<close>

definition demo_dir :: os where
  "demo_dir = demo_store
     [(''zzz'', demo_blob [1]), (''ref-iii'', demo_blob [7, 8]),
      (''sub'', \<lparr>contents = [], perm = 493, regular = False, xattrs = []\<rparr>),
      (''ref-ii'', demo_blob [])]"

definition demo_dir_healed :: os where
  "demo_dir_healed = demo_store
     [(''zzz'', demo_blob [1]), (''ref-iii'', demo_blob [7, 8]),
      (''sub'', \<lparr>contents = [], perm = 493, regular = False, xattrs = []\<rparr>)]"

text \<open>
  An instance in which the ref of a blob keeps the bytes of the blob and the encoding of a
  list keeps the names and the refs of its entries in their order, so that the ref of a
  directory depends on the order in which its entries are encoded. The payload of a file
  is its content.
\<close>

definition plain_ops :: "byte list ref_ops" where
  "plain_ops =
     \<lparr>ZeroRef = [],
      BytesRef = (\<lambda>b. 1 # b),
      RefString = map (\<lambda>b. char_of (unat b)),
      ParseRef = (\<lambda>n. Inr (map (\<lambda>c. of_nat (of_char c)) n))\<rparr>"

fun encode_names :: "byte list object \<Rightarrow> byte list" where
  "encode_names (ObjDirEntry e) =
     1 # of_nat (length (de_Name e)) # map (\<lambda>c. of_nat (of_char c)) (de_Name e) @ de_Ref e"
| "encode_names (ObjInlineList ty os) = 2 # concat (map encode_names os)"
| "encode_names (ObjList l) = 3 # concat (l_List l)"

definition name_schema :: "byte list schema_ops" where
  "name_schema = \<lparr>Encode = (\<lambda>obj. Inr (encode_names obj)), typeDirEnt = ''cas:DirEntry''\<rparr>"

definition plain_saf :: "(byte list, (byte list \<times> byte list) list, byte list) storeAsFile" where
  "plain_saf n f indexOnly s =
     (Inr \<lparr>de_Ref = 1 # f, de_Size = of_nat (length f), de_Count = 0, de_Name = n\<rparr>, s)"

definition demo_tree :: "byte list fsnode" where
  "demo_tree =
     FsDir ''top'' None
       [FsFile ''b'' [5],
        FsDir ''sub'' None [FsFile ''y'' [], FsFile ''x'' [7]] None,
        FsFile ''.cas'' [9],
        FsFile ''a'' [3]] None"

definition demo_tree_reordered :: "byte list fsnode" where
  "demo_tree_reordered =
     FsDir ''top'' None
       [FsDir ''sub'' None [FsFile ''x'' [7], FsFile ''y'' []] None,
        FsFile ''a'' [3],
        FsFile ''b'' [5],
        FsFile ''.cas'' [9]] None"

text \<open>The failures of a session: none, or a disk with no space left.\<close>

definition no_faults :: faults where
  "no_faults = (\<lambda>c. None)"

definition disk_full :: faults where
  "disk_full = (\<lambda>c. if c = SysWrite then Some (ErrIO ''no space left on device'') else None)"

section \<open>The file system: basic facts\<close>

lemma demo_store_fails [simp]: "fails (demo_store bs) c = None"
  by (simp add: demo_store_def)

lemma lookup_put: "lookup p (put q f s) = (if p = q then Some f else lookup p s)"
  by (cases p; cases q) (simp_all add: update_conv')

lemma lookup_unlink: "lookup p (unlink q s) = (if p = q then None else lookup p s)"
  by (cases p; cases q) (simp_all add: delete_conv')

lemma fails_put [simp]: "fails (put p f s) = fails s"
  by (cases p) simp_all

lemma fails_unlink [simp]: "fails (unlink p s) = fails s"
  by (cases p) simp_all

lemma unlink_put [simp]: "unlink p (put p f s) = unlink p s"
  by (cases p) (simp_all add: delete_update_same)

section \<open>The invalid-blob check\<close>

lemma removeIfInvalid_valid:
  "fi_Size fi \<noteq> 0 \<or> Empty T r \<Longrightarrow> removeIfInvalid T fi r s = (Inr False, s)"
  by (simp add: removeIfInvalid_def)

lemma removeIfInvalid_heals:
  assumes "fi_Size fi = 0" "\<not> Empty T r" "lookup (blobPath T r) s = Some f"
    and "fails s SysChmod = None" "fails s SysRemove = None"
  shows "removeIfInvalid T fi r s = (Inr True, unlink (blobPath T r) s)"
  using assms by (simp add: removeIfInvalid_def os_Chmod_def os_Remove_def lookup_put)

lemma removeIfInvalid_cleanup_fails:
  assumes "fi_Size fi = 0" "\<not> Empty T r"
    and "fails s SysChmod \<noteq> None \<or> fails s SysRemove \<noteq> None"
  shows "fst (removeIfInvalid T fi r s) = Inl (ErrRefMissmatch r (BytesRef T []))"
  using assms
  by (auto simp: removeIfInvalid_def os_Chmod_def os_Remove_def lookup_put
      split: option.splits)

lemma removeIfInvalid_False_unchanged:
  "removeIfInvalid T fi r s = (Inr False, s') \<Longrightarrow> s' = s"
  by (auto simp: removeIfInvalid_def split: if_splits prod.splits option.splits)

lemma local_StatBlob_ok_unchanged:
  "local_StatBlob T r s = (Inr sz, s') \<Longrightarrow> s' = s"
  by (auto simp: local_StatBlob_def split: if_splits sum.splits prod.splits
      dest: removeIfInvalid_False_unchanged)

text \<open>
  C2. For every non-empty ref \<open>r\<close> that names a blob (the zero ref is rejected as invalid
  before the check, and no commit renames a file to it), if \<^verbatim>\<open>blobs/<r>\<close> exists with size 0
  and the store can stat and open it, then: when the cleanup (chmod, remove) works,
  \<^verbatim>\<open>StatBlob(r)\<close> and \<^verbatim>\<open>FetchBlob(r)\<close> remove the file and return \<open>ErrNotFound\<close>; when the chmod or
  the remove fails, both return the \<open>ErrRefMissmatch\<close> of \<open>r\<close> and the empty ref. Neither
  ever succeeds.
\<close>

theorem crash_artifact_is_healed:
  assumes "\<not> Zero T r" and "\<not> Empty T r"
    and "lookup (blobPath T r) s = Some f" and "contents f = []"
    and "fails s SysStat = None" and "fails s SysOpen = None" and "fails s SysFstat = None"
  shows "if fails s SysChmod = None \<and> fails s SysRemove = None
         then local_StatBlob T r s = (Inl ErrNotFound, unlink (blobPath T r) s)
              \<and> local_FetchBlob T r s = (Inl ErrNotFound, unlink (blobPath T r) s)
              \<and> lookup (blobPath T r) (unlink (blobPath T r) s) = None
         else fst (local_StatBlob T r s) = Inl (ErrRefMissmatch r (BytesRef T []))
              \<and> fst (local_FetchBlob T r s) = Inl (ErrRefMissmatch r (BytesRef T []))"
proof (cases "fails s SysChmod = None \<and> fails s SysRemove = None")
  case True
  have sz: "fi_Size (info (base_name (blobPath T r)) f) = 0"
    using assms(4) by (simp add: info_def)
  have heal: "removeIfInvalid T (info (base_name (blobPath T r)) f) r s
      = (Inr True, unlink (blobPath T r) s)"
    using sz assms(2,3) True by (intro removeIfInvalid_heals) simp_all
  have "local_StatBlob T r s = (Inl ErrNotFound, unlink (blobPath T r) s)"
    using assms(1,3,5) heal by (simp add: local_StatBlob_def os_Stat_def)
  moreover have "local_FetchBlob T r s = (Inl ErrNotFound, unlink (blobPath T r) s)"
    using assms(1,3,6,7) heal by (simp add: local_FetchBlob_def os_Open_def os_Fstat_def)
  ultimately show ?thesis
    using True by (simp add: lookup_unlink)
next
  case False
  have sz: "fi_Size (info (base_name (blobPath T r)) f) = 0"
    using assms(4) by (simp add: info_def)
  have bad: "fst (removeIfInvalid T (info (base_name (blobPath T r)) f) r s)
      = Inl (ErrRefMissmatch r (BytesRef T []))"
    using sz assms(2) False by (intro removeIfInvalid_cleanup_fails) auto
  then obtain s1 where bad': "removeIfInvalid T (info (base_name (blobPath T r)) f) r s
      = (Inl (ErrRefMissmatch r (BytesRef T [])), s1)"
    by (cases "removeIfInvalid T (info (base_name (blobPath T r)) f) r s") auto
  have "fst (local_StatBlob T r s) = Inl (ErrRefMissmatch r (BytesRef T []))"
    using assms(1,3,5) bad' by (simp add: local_StatBlob_def os_Stat_def)
  moreover have "fst (local_FetchBlob T r s) = Inl (ErrRefMissmatch r (BytesRef T []))"
    using assms(1,3,6,7) bad' by (simp add: local_FetchBlob_def os_Open_def os_Fstat_def)
  ultimately show ?thesis
    using False by auto
qed

theorem crash_artifact_is_healed_witness:
  "\<not> Zero demo_ops 3 \<and> \<not> Empty demo_ops 3
   \<and> lookup (blobPath demo_ops 3) (demo_store [(''ref-iii'', demo_blob [])]) = Some (demo_blob [])
   \<and> local_StatBlob demo_ops 3 (demo_store [(''ref-iii'', demo_blob [])])
       = (Inl ErrNotFound, demo_store [])
   \<and> local_FetchBlob demo_ops 3 (demo_store [(''ref-iii'', demo_blob [])])
       = (Inl ErrNotFound, demo_store [])"
proof -
  have a: "\<not> Zero demo_ops 3" "\<not> Empty demo_ops 3"
    by (simp_all add: Zero_def Empty_def demo_ops_def)
  have p: "blobPath demo_ops 3 = Blobs ''ref-iii''"
    by (simp add: blobPath_def demo_ops_def numeral_3_eq_3)
  have b: "lookup (blobPath demo_ops 3) (demo_store [(''ref-iii'', demo_blob [])])
      = Some (demo_blob [])"
    by (simp add: p demo_store_def)
  have c: "contents (demo_blob []) = []"
    by (simp add: demo_blob_def)
  have u: "unlink (blobPath demo_ops 3) (demo_store [(''ref-iii'', demo_blob [])])
      = demo_store []"
    by (simp add: p demo_store_def)
  show ?thesis
    using crash_artifact_is_healed [OF a b c] a b
    by (simp add: u)
qed


section \<open>Storing through the facade\<close>

lemma cas_StoreBlob_present:
  assumes "\<not> Zero T r" and "\<not> Empty T r" and "cas_StatBlob T st r s = (Inr sz, s')"
  shows "cas_StoreBlob T st r rd s = (Inr \<lparr>Ref = r, Size = sz\<rparr>, rd, s')"
  using assms by (simp add: cas_StoreBlob_def)

text \<open>
  C3. For every expected ref \<open>r\<close> that is neither the zero ref nor the empty ref and for
  which \<^verbatim>\<open>StatBlob(r)\<close> succeeds with size \<open>sz\<close>, \<^verbatim>\<open>StoreBlob(r, reader)\<close> over the local store
  returns \<^verbatim>\<open>SizedRef{r, sz}\<close>, leaves the reader as it was (no \<^verbatim>\<open>Read\<close> call) and leaves the
  store as it was, whatever the backend's own \<^verbatim>\<open>StoreBlob\<close> is; storing again in the state
  the first call leaves gives the same result, again without reading.
\<close>

theorem StoreBlob_deduplicates:
  assumes "\<not> Zero T r" and "\<not> Empty T r"
    and "cas_StatBlob T (LocalStorage T sb) r s = (Inr sz, s')"
  shows "s' = s
     \<and> cas_StoreBlob T (LocalStorage T sb) r rd s = (Inr \<lparr>Ref = r, Size = sz\<rparr>, rd, s)
     \<and> cas_StoreBlob T (LocalStorage T sb) r rd2 (snd (snd (cas_StoreBlob T (LocalStorage T sb) r rd s)))
         = (Inr \<lparr>Ref = r, Size = sz\<rparr>, rd2, s)"
proof -
  have "local_StatBlob T r s = (Inr sz, s')"
    using assms(2,3) by (simp add: cas_StatBlob_def LocalStorage_def)
  then have eq: "s' = s"
    by (rule local_StatBlob_ok_unchanged)
  have "\<And>rd. cas_StoreBlob T (LocalStorage T sb) r rd s = (Inr \<lparr>Ref = r, Size = sz\<rparr>, rd, s)"
    using cas_StoreBlob_present [OF assms] eq by simp
  with eq show ?thesis by simp
qed

theorem StoreBlob_deduplicates_witness:
  "\<not> Zero demo_ops 3 \<and> \<not> Empty demo_ops 3
   \<and> cas_StatBlob demo_ops demo_local 3 (demo_store [(''ref-iii'', demo_blob [7, 8])])
       = (Inr 2, demo_store [(''ref-iii'', demo_blob [7, 8])])
   \<and> cas_StoreBlob demo_ops demo_local 3 [([7, 8], None)]
         (demo_store [(''ref-iii'', demo_blob [7, 8])])
       = (Inr \<lparr>Ref = 3, Size = 2\<rparr>, [([7, 8], None)], demo_store [(''ref-iii'', demo_blob [7, 8])])"
proof -
  have a: "\<not> Zero demo_ops 3" "\<not> Empty demo_ops 3"
    by (simp_all add: Zero_def Empty_def demo_ops_def)
  have p: "blobPath demo_ops 3 = Blobs ''ref-iii''"
    by (simp add: blobPath_def demo_ops_def numeral_3_eq_3)
  have b: "cas_StatBlob demo_ops (LocalStorage demo_ops (local_StoreBlob demo_ops)) 3
      (demo_store [(''ref-iii'', demo_blob [7, 8])])
      = (Inr 2, demo_store [(''ref-iii'', demo_blob [7, 8])])"
    using a
    by (simp add: cas_StatBlob_def LocalStorage_def local_StatBlob_def os_Stat_def p
        removeIfInvalid_def info_def demo_blob_def demo_store_def)
  show ?thesis
    using StoreBlob_deduplicates [OF a b, of "[([7, 8], None)]"] a b
    by (simp add: demo_local_def)
qed

text \<open>
  C4, as amended. When \<^verbatim>\<open>StoreBlob\<close> is called with the empty ref as expected ref, it makes
  one \<^verbatim>\<open>Read\<close> with a buffer of one byte, so it reads at most one byte, and it writes nothing
  to the store, whatever the backend. If that read returns no byte and \<^verbatim>\<open>io.EOF\<close>, the result
  is (empty ref, size 0). If that read returns anything but \<^verbatim>\<open>io.EOF\<close> as its error (a byte
  with a nil error, in particular), the call fails with the plain error
  \<^verbatim>\<open>"expected empty blob"\<close>, which is not an \<open>ErrRefMissmatch\<close>.
\<close>

theorem StoreBlob_empty_ref:
  assumes "Empty T exp" and "Read rd 1 = ((b, err), rd')"
  shows "length b \<le> 1
     \<and> fst (snd (cas_StoreBlob T st exp rd s)) = rd'
     \<and> snd (snd (cas_StoreBlob T st exp rd s)) = s
     \<and> (b = [] \<and> err = Some EOF \<longrightarrow>
           fst (cas_StoreBlob T st exp rd s) = Inr \<lparr>Ref = exp, Size = 0\<rparr>)
     \<and> (err \<noteq> Some EOF \<longrightarrow>
           fst (cas_StoreBlob T st exp rd s) = Inl (Errorf ''expected empty blob'')
           \<and> \<not> is_RefMissmatch (Errorf ''expected empty blob'' :: 'r error))"
proof -
  have "length b \<le> 1"
    using assms(2) by (cases rd) (auto split: if_splits)
  then show ?thesis
    using assms by (simp add: cas_StoreBlob_def is_RefMissmatch_def)
qed

theorem StoreBlob_empty_ref_witness:
  "Empty demo_ops 1
   \<and> cas_StoreBlob demo_ops demo_local 1 [] (demo_store []) = (Inr \<lparr>Ref = 1, Size = 0\<rparr>, [], demo_store [])
   \<and> cas_StoreBlob demo_ops demo_local 1 [([7, 8], None)] (demo_store [])
       = (Inl (Errorf ''expected empty blob''), [([8], None)], demo_store [])"
proof -
  have a: "Empty demo_ops 1"
    by (simp add: Empty_def demo_ops_def)
  have r1: "Read ([] :: nat reader) 1 = (([], Some EOF), [])"
    by simp
  have r2: "Read ([([7, 8], None)] :: nat reader) 1 = (([7], None), [([8], None)])"
    by simp
  have "cas_StoreBlob demo_ops demo_local 1 [] (demo_store [])
      = (Inr \<lparr>Ref = 1, Size = 0\<rparr>, [], demo_store [])"
    using StoreBlob_empty_ref [OF a r1, of demo_local "demo_store []"]
    by (cases "cas_StoreBlob demo_ops demo_local 1 [] (demo_store [])") simp
  moreover have "cas_StoreBlob demo_ops demo_local 1 [([7, 8], None)] (demo_store [])
      = (Inl (Errorf ''expected empty blob''), [([8], None)], demo_store [])"
    using StoreBlob_empty_ref [OF a r2, of demo_local "demo_store []"]
    by (cases "cas_StoreBlob demo_ops demo_local 1 [([7, 8], None)] (demo_store [])") simp
  ultimately show ?thesis
    using a by simp
qed

text \<open>
  The claim as stated fails on the kind of the error: a stream that yields a byte makes
  the call fail, but not with a ref mismatch.
\<close>

theorem StoreBlob_empty_ref_counterexample:
  "Empty demo_ops 1
   \<and> cas_StoreBlob demo_ops demo_local 1 [([7], None)] (demo_store [])
       = (Inl (Errorf ''expected empty blob''), [], demo_store [])
   \<and> \<not> is_RefMissmatch (Errorf ''expected empty blob'' :: nat error)"
  by (simp add: Empty_def demo_ops_def cas_StoreBlob_def is_RefMissmatch_def)

text \<open>
  C5, as amended. For the empty ref, the facade's \<^verbatim>\<open>StatBlob\<close> returns size 0 and its
  \<^verbatim>\<open>FetchBlob\<close> returns a reader of no bytes with size 0, for every backend and every state
  of it and without changing that state; and \<^verbatim>\<open>StoreBlob\<close> with the empty ref as expected ref
  leaves the store as it was. (A blob writer committed with no bytes written does create
  the file of the empty blob: see the counterexample.)
\<close>

theorem empty_ref_is_generated:
  assumes "Empty T r"
  shows "cas_StatBlob T st r s = (Inr 0, s)
     \<and> cas_FetchBlob T st r s = (Inr ([], 0), s)
     \<and> snd (snd (cas_StoreBlob T st r rd s)) = s"
  using assms
  by (simp add: cas_StatBlob_def cas_FetchBlob_def cas_StoreBlob_def bytes_Reader_def
      split: prod.splits)

theorem empty_ref_is_generated_witness:
  "Empty demo_ops 1
   \<and> cas_StatBlob demo_ops demo_local 1 (demo_store []) = (Inr 0, demo_store [])
   \<and> cas_FetchBlob demo_ops demo_local 1 (demo_store []) = (Inr ([], 0), demo_store [])
   \<and> snd (snd (cas_StoreBlob demo_ops demo_local 1 [] (demo_store []))) = demo_store []"
proof -
  have a: "Empty demo_ops 1"
    by (simp add: Empty_def demo_ops_def)
  show ?thesis
    using empty_ref_is_generated [OF a, of demo_local "demo_store []" "[]"] a
    by simp
qed

section \<open>The blob writer\<close>

lemma BeginBlob_writing:
  "BeginBlob T s = (Inr w, s1) \<Longrightarrow> writing T w s1 []"
  by (auto simp: BeginBlob_def tmpFileGen_def os_TempFile_def writing_def Hash_def Zero_def
      lookup_put update_conv' split: option.splits list.splits prod.splits sum.splits)

lemma bw_Write_writing:
  assumes "writing T w s B" and "bw_Write w p s = (Inr k, w', s')"
  shows "writing T w' s' (B @ p)"
proof -
  from assms(1) obtain n f where w: "bw_f w = Some \<lparr>gf = Some n\<rparr>" "lookup (Tmp n) s = Some f"
    "contents f = B" "regular f" "xattrs f = []" "hw_buf (bw_hw w) = B"
    "Zero T (Ref (bw_sr w)) \<or> (hw_completed (bw_hw w) \<and> Ref (bw_sr w) = BytesRef T B)"
    unfolding writing_def by blast
  from assms(2) have nc: "\<not> hw_completed (bw_hw w)"
    by (auto simp: bw_Write_def hw_Write_def split: if_splits)
  from assms(2) nc w(1,2) have s': "s' = put (Tmp n) (f\<lparr>contents := contents f @ p\<rparr>) s"
    and w': "w' = w\<lparr>bw_hw := (bw_hw w)\<lparr>hw_buf := hw_buf (bw_hw w) @ p\<rparr>\<rparr>"
    by (auto simp: bw_Write_def hw_Write_def gen_Write_def os_Write_def
        split: option.splits prod.splits sum.splits)
  show ?thesis
    unfolding writing_def using w nc
    by (intro exI [of _ n] exI [of _ "f\<lparr>contents := contents f @ p\<rparr>"])
       (simp add: s' w' lookup_put update_conv')
qed

lemma bw_Complete_writing:
  assumes "writing T w s B" and "bw_Complete T w = (Inr sr, w')"
  shows "writing T w' s B"
  using assms
  by (auto simp: writing_def bw_Complete_def hw_Complete_def Zero_def split: if_splits)

lemma bw_Commit_writing:
  assumes "writing T w s B" and "bw_Commit T w s = (None, w', s')"
  shows "lookup (blobPath T (BytesRef T B)) s'
           = Some \<lparr>contents = B, perm = roPerm, regular = True, xattrs = []\<rparr>"
proof -
  from assms(1) obtain n f where w: "bw_f w = Some \<lparr>gf = Some n\<rparr>" "lookup (Tmp n) s = Some f"
    "contents f = B" "regular f" "xattrs f = []" "hw_buf (bw_hw w) = B"
    "Zero T (Ref (bw_sr w)) \<or> (hw_completed (bw_hw w) \<and> Ref (bw_sr w) = BytesRef T B)"
    unfolding writing_def by blast
  define w2 where "w2 = snd (if Zero T (Ref (bw_sr w)) then bw_Complete T w else (Inr (bw_sr w), w))"
  have ref: "Ref (bw_sr w2) = BytesRef T B"
    using w(6,7) by (auto simp: w2_def bw_Complete_def hw_Complete_def)
  have c: "gen_Commit T \<lparr>gf = Some n\<rparr> (BytesRef T B) s = (None, \<lparr>gf = None\<rparr>, s')"
    using assms(2) w(1) ref
    by (auto simp: bw_Commit_def hw_Commit_def Let_def w2_def bw_Complete_def hw_Complete_def
        gen_Commit_def split: prod.splits sum.splits if_splits option.splits)
  have f: "f\<lparr>perm := roPerm\<rparr> = \<lparr>contents = B, perm = roPerm, regular = True, xattrs = []\<rparr>"
    using w(3,4,5) by (cases f) simp
  from c w(2) show ?thesis
    by (auto simp: gen_Commit_def os_Close_def os_Chmod_def os_Rename_def lookup_put
        lookup_unlink blobPath_def f update_conv' delete_conv' split: option.splits prod.splits)
qed

lemma writing_fails [simp]: "writing T w (s\<lparr>fails := env\<rparr>) B = writing T w s B"
  by (simp add: writing_def)

lemma bw_calls_writing:
  "writing T w s B \<Longrightarrow> bw_calls T cs w s = (errs, w', s') \<Longrightarrow> list_all (\<lambda>e. e = None) errs \<Longrightarrow>
   writing T w' s' (B @ offered cs)"
proof (induction cs arbitrary: w s B errs)
  case Nil
  then show ?case by simp
next
  case (Cons a cs)
  obtain env c where a: "a = (env, c)" by (cases a)
  from Cons.prems(2) a obtain err w1 s1 errs' where
    1: "bw_call T c w (s\<lparr>fails := env\<rparr>) = (err, w1, s1)"
    and 2: "bw_calls T cs w1 s1 = (errs', w', s')"
    and e: "errs = err # errs'"
    by (auto split: prod.splits)
  from Cons.prems(3) e have n: "err = None" and n': "list_all (\<lambda>e. e = None) errs'"
    by simp_all
  have w0: "writing T w (s\<lparr>fails := env\<rparr>) B"
    using Cons.prems(1) by simp
  show ?case
  proof (cases c)
    case (CallWrite p)
    with 1 n obtain k where "bw_Write w p (s\<lparr>fails := env\<rparr>) = (Inr k, w1, s1)"
      by (auto split: prod.splits sum.splits)
    from bw_Write_writing [OF w0 this] have "writing T w1 s1 (B @ p)" .
    from Cons.IH [OF this 2 n'] a CallWrite show ?thesis by simp
  next
    case CallComplete
    with 1 n obtain sr where "bw_Complete T w = (Inr sr, w1)" and "s1 = s\<lparr>fails := env\<rparr>"
      by (auto split: prod.splits sum.splits)
    with bw_Complete_writing [OF w0] have "writing T w1 s1 B" by simp
    from Cons.IH [OF this 2 n'] a CallComplete show ?thesis by simp
  qed
qed

text \<open>
  C1, as amended. For every blob writer whose calls of \<^verbatim>\<open>Write\<close> (and of \<^verbatim>\<open>Complete\<close>) all
  succeeded and whose \<^verbatim>\<open>Commit\<close> then succeeds, whatever the failures of the operating
  system during each call: the file of \<^verbatim>\<open>blobs/\<close> named by the canonical string of the hash
  of the bytes written exists, its contents are exactly those bytes, and its mode is
  \<^verbatim>\<open>0444\<close>.
\<close>

theorem committed_blob_is_named_by_its_hash:
  assumes "blob_session T cs env s = (errs, None, s')"
    and "list_all (\<lambda>e. e = None) errs"
  shows "lookup (blobPath T (BytesRef T (offered cs))) s'
           = Some \<lparr>contents = offered cs, perm = roPerm, regular = True, xattrs = []\<rparr>"
proof -
  from assms(1) obtain w s1 w2 s2 w3 where
    b: "BeginBlob T s = (Inr w, s1)"
    and c: "bw_calls T cs w s1 = (errs, w2, s2)"
    and k: "bw_Commit T w2 (s2\<lparr>fails := env\<rparr>) = (None, w3, s')"
    by (auto simp: blob_session_def split: prod.splits sum.splits)
  have "writing T w2 s2 (offered cs)"
    using bw_calls_writing [OF BeginBlob_writing [OF b] c assms(2)] by simp
  then have "writing T w2 (s2\<lparr>fails := env\<rparr>) (offered cs)"
    by simp
  from bw_Commit_writing [OF this k] show ?thesis .
qed

lemmas session_eval = blob_session_def BeginBlob_def tmpFileGen_def os_TempFile_def
  demo_store_def bw_Write_def hw_Write_def Hash_def gen_Write_def os_Write_def bw_Complete_def
  hw_Complete_def bw_Commit_def hw_Commit_def gen_Commit_def os_Close_def os_Chmod_def
  os_Rename_def blobPath_def demo_ops_def Zero_def demo_blob_def Let_def no_faults_def
  disk_full_def

lemma demo_session:
  "blob_session demo_ops
     [(no_faults, CallWrite [1, 2]), (no_faults, CallWrite [3]), (no_faults, CallComplete)]
     no_faults (demo_store [])
   = ([None, None, None], None,
      \<lparr>blobs = [(''ref-iiii'', demo_blob [1, 2, 3])], tmp = [], fails = no_faults,
        tmp_names = []\<rparr>)"
  by (simp add: session_eval)

theorem committed_blob_is_named_by_its_hash_witness:
  "blob_session demo_ops
     [(no_faults, CallWrite [1, 2]), (no_faults, CallWrite [3]), (no_faults, CallComplete)]
     no_faults (demo_store [])
   = ([None, None, None], None,
      \<lparr>blobs = [(''ref-iiii'', demo_blob [1, 2, 3])], tmp = [], fails = no_faults,
        tmp_names = []\<rparr>)
   \<and> list_all (\<lambda>e. e = None) [None, None, None :: nat error option]
   \<and> lookup (blobPath demo_ops (BytesRef demo_ops
         (offered [(no_faults, CallWrite [1, 2]), (no_faults, CallWrite [3]),
                   (no_faults, CallComplete)])))
       \<lparr>blobs = [(''ref-iiii'', demo_blob [1, 2, 3])], tmp = [], fails = no_faults,
        tmp_names = []\<rparr>
     = Some \<lparr>contents = [1, 2, 3], perm = roPerm, regular = True, xattrs = []\<rparr>"
proof -
  have l: "list_all (\<lambda>e. e = None) [None, None, None :: nat error option]"
    by simp
  have o: "offered [(no_faults, CallWrite [1, 2]), (no_faults, CallWrite [3]),
                    (no_faults, CallComplete)] = [1, 2, 3]"
    by simp
  show ?thesis
    using committed_blob_is_named_by_its_hash [OF demo_session l] demo_session l
    unfolding o by simp
qed

text \<open>
  C1 as stated fails when a \<^verbatim>\<open>Write\<close> failed: \<^verbatim>\<open>Write\<close> feeds the hasher before the file, and
  the writer keeps no record of the failure. Here the first chunk is written, the second
  meets a full disk, and \<^verbatim>\<open>Commit\<close> succeeds: the file is named by the hash of the three
  bytes handed to \<^verbatim>\<open>Write\<close> and holds the first byte only, whose own hash is another ref.
\<close>

theorem commit_after_failed_write_counterexample:
  "blob_session demo_ops [(no_faults, CallWrite [1]), (disk_full, CallWrite [2, 3])]
     no_faults (demo_store [])
   = ([None, Some (OSError (ErrIO ''no space left on device''))], None,
      \<lparr>blobs = [(''ref-iiii'', demo_blob [1])], tmp = [], fails = no_faults, tmp_names = []\<rparr>)
   \<and> RefString demo_ops (BytesRef demo_ops [1, 2, 3]) = ''ref-iiii''
   \<and> RefString demo_ops (BytesRef demo_ops [1]) = ''ref-ii''"
  by (simp add: session_eval)

text \<open>
  The last part of C5 as stated fails: a blob writer that is committed without a write
  leaves the empty blob as a file of \<^verbatim>\<open>blobs/\<close>, named by the empty ref.
\<close>

theorem empty_blob_on_disk_counterexample:
  "Empty demo_ops 1
   \<and> write_blob demo_ops [] False (demo_store [])
     = (None, \<lparr>blobs = [(''ref-i'', demo_blob [])], tmp = [], fails = (\<lambda>c. None),
               tmp_names = []\<rparr>)
   \<and> lookup (blobPath demo_ops 1)
       \<lparr>blobs = [(''ref-i'', demo_blob [])], tmp = [], fails = (\<lambda>c. None), tmp_names = []\<rparr>
     = Some (demo_blob [])"
  by (simp add: write_blob_def BeginBlob_def tmpFileGen_def os_TempFile_def demo_store_def
      Hash_def bw_Complete_def hw_Complete_def bw_Commit_def hw_Commit_def gen_Commit_def
      os_Close_def os_Chmod_def os_Rename_def blobPath_def demo_ops_def Zero_def Empty_def
      demo_blob_def Let_def)

section \<open>Fetching a schema blob\<close>

text \<open>
  C9, as amended. For every non-zero ref, \<^verbatim>\<open>FetchSchema\<close> returns \<open>ErrNotSchema\<close> exactly when
  the schema-type xattr can be read and holds the empty tag; in every other case (a
  non-empty tag, but also a tag that is not set or cannot be read) it returns what
  \<^verbatim>\<open>FetchBlob\<close> returns for the ref: for a non-empty blob file that can be opened, its reader
  and its size.
\<close>

theorem FetchSchema_cases:
  assumes "\<not> Zero (T :: 'r ref_ops) r"
  shows "local_FetchSchema T r s
           = (if (xattr_GetString (blobPath T r) xattrSchemaType s :: 'r error + string) = Inr []
              then (Inl ErrNotSchema, s) else local_FetchBlob T r s)
     \<and> (\<forall>f. lookup (blobPath T r) s = Some f \<and> contents f \<noteq> []
           \<and> fails s SysOpen = None \<and> fails s SysFstat = None \<longrightarrow>
           local_FetchBlob T r s
             = (Inr (bytes_Reader (contents f), of_nat (length (contents f))), s))"
  using assms
  by (auto simp: local_FetchSchema_def local_FetchBlob_def os_Open_def os_Fstat_def
      removeIfInvalid_def info_def split: sum.splits)

theorem FetchSchema_cases_witness:
  "\<not> Zero demo_ops 3
   \<and> local_FetchSchema demo_ops 3 (demo_store [(''ref-iii'', demo_tagged [7, 8] ''cas:DirEntry'')])
       = (Inr ([([7, 8], None)], 2), demo_store [(''ref-iii'', demo_tagged [7, 8] ''cas:DirEntry'')])
   \<and> local_FetchSchema demo_ops 3 (demo_store [(''ref-iii'', demo_tagged [7, 8] [])])
       = (Inl ErrNotSchema, demo_store [(''ref-iii'', demo_tagged [7, 8] [])])"
proof -
  have a: "\<not> Zero demo_ops 3"
    by (simp add: Zero_def demo_ops_def)
  have p: "blobPath demo_ops 3 = Blobs ''ref-iii''"
    by (simp add: blobPath_def demo_ops_def numeral_3_eq_3)
  have x: "(xattr_GetString (Blobs ''ref-iii'') xattrSchemaType
              (demo_store [(''ref-iii'', demo_tagged [7, 8] tag)]) :: nat error + string) = Inr tag"
    for tag
    by (simp add: xattr_GetString_def demo_store_def demo_tagged_def xattrSchemaType_def)
  have l: "lookup (Blobs ''ref-iii'') (demo_store [(''ref-iii'', demo_tagged [7, 8] tag)])
      = Some (demo_tagged [7, 8] tag)" for tag
    by (simp add: demo_store_def)
  have c: "contents (demo_tagged [7, 8] tag) = [7, 8]" for tag
    by (simp add: demo_tagged_def)
  have n: "fails (demo_store bs) SysOpen = None \<and> fails (demo_store bs) SysFstat = None" for bs
    by simp
  note t1 = FetchSchema_cases [OF a, of "demo_store [(''ref-iii'', demo_tagged [7, 8] ''cas:DirEntry'')]"]
  note t2 = FetchSchema_cases [OF a, of "demo_store [(''ref-iii'', demo_tagged [7, 8] [])]"]
  have "local_FetchSchema demo_ops 3 (demo_store [(''ref-iii'', demo_tagged [7, 8] ''cas:DirEntry'')])
      = local_FetchBlob demo_ops 3 (demo_store [(''ref-iii'', demo_tagged [7, 8] ''cas:DirEntry'')])"
    using t1 [THEN conjunct1] by (simp add: p x)
  moreover have "local_FetchBlob demo_ops 3
        (demo_store [(''ref-iii'', demo_tagged [7, 8] ''cas:DirEntry'')])
      = (Inr ([([7, 8], None)], 2), demo_store [(''ref-iii'', demo_tagged [7, 8] ''cas:DirEntry'')])"
    using t1 [THEN conjunct2, rule_format, of "demo_tagged [7, 8] ''cas:DirEntry''"] n
    by (simp add: p c bytes_Reader_def demo_store_def)
  moreover have "local_FetchSchema demo_ops 3 (demo_store [(''ref-iii'', demo_tagged [7, 8] [])])
      = (Inl ErrNotSchema, demo_store [(''ref-iii'', demo_tagged [7, 8] [])])"
    using t2 [THEN conjunct1] by (simp add: p x)
  ultimately show ?thesis
    using a by simp
qed

text \<open>
  The claim as stated fails when no tag is cached: the blob is fetched, and the result is
  not \<open>ErrNotSchema\<close>.
\<close>

theorem FetchSchema_untagged_counterexample:
  "\<not> Zero demo_ops 3
   \<and> (xattr_GetString (blobPath demo_ops 3) xattrSchemaType
         (demo_store [(''ref-iii'', demo_blob [7, 8])]) :: nat error + string) = Inl ErrNotSet
   \<and> local_FetchSchema demo_ops 3 (demo_store [(''ref-iii'', demo_blob [7, 8])])
       = (Inr ([([7, 8], None)], 2), demo_store [(''ref-iii'', demo_blob [7, 8])])"
  by (simp add: Zero_def Empty_def demo_ops_def blobPath_def xattr_GetString_def demo_store_def
      demo_blob_def local_FetchSchema_def local_FetchBlob_def os_Open_def os_Fstat_def
      removeIfInvalid_def info_def bytes_Reader_def xattrSchemaType_def numeral_3_eq_3)


section \<open>Packing a directory\<close>

lemma fold_add_sum_list:
  fixes a :: "'a::comm_monoid_add"
  shows "fold (\<lambda>e acc. acc + f e) xs a = a + sum_list (map f xs)"
  by (induction xs arbitrary: a) (simp_all add: add.assoc)

lemma sum_list_sort_key:
  fixes f :: "'b \<Rightarrow> 'a::comm_monoid_add"
  shows "sum_list (map f (sort_key k xs)) = sum_list (map f xs)"
proof -
  have "mset (map f (sort_key k xs)) = mset (map f xs)"
    by simp
  then show ?thesis
    by (metis sum_mset_sum_list)
qed

lemma unat_sum_list:
  "unat (sum_list (xs :: 'a::len word list)) = sum_list (map unat xs) mod 2 ^ LENGTH('a)"
proof (induction xs)
  case Nil
  then show ?case by simp
next
  case (Cons x xs)
  then show ?case
    by (simp add: unat_word_ariths mod_add_right_eq)
qed

lemma sum_list_mod:
  "sum_list (map (\<lambda>x. f x mod m) xs) mod m = sum_list (map f xs) mod (m::nat)"
proof (induction xs)
  case Nil
  then show ?case by simp
next
  case (Cons x xs)
  have "(f x mod m + sum_list (map (\<lambda>x. f x mod m) xs)) mod m
      = (f x mod m + sum_list (map (\<lambda>x. f x mod m) xs) mod m) mod m"
    by (simp add: mod_add_right_eq)
  also have "\<dots> = (f x mod m + sum_list (map f xs) mod m) mod m"
    by (simp only: Cons.IH)
  also have "\<dots> = (f x + sum_list (map f xs)) mod m"
    by (simp add: mod_add_eq)
  finally show ?case by simp
qed

lemma storeDirList_eq:
  "storeDirList T S st list s =
     (case StoreSchema T S st (ObjInlineList (typeDirEnt S) (map ObjDirEntry list)) s of
        (Inl e, s') \<Rightarrow> (Inl e, s')
      | (Inr sr, s') \<Rightarrow>
          (Inr (sr, \<lparr>de_Ref = Ref sr, de_Size = sum_list (map de_Size list),
                     de_Count = sum_list (map (\<lambda>e. de_Count e + 1) list), de_Name = []\<rparr>), s'))"
  by (simp add: storeDirList_def fold_add_sum_list)

text \<open>
  C7. For every directory whose collected entry list \<open>base\<close> has at most \<^verbatim>\<open>maxDirEntries\<close>
  entries, \<^verbatim>\<open>storeDir\<close> stores exactly one object after the collection, the inline list of
  the entries sorted by name, and returns that call's \<^verbatim>\<open>SizedRef\<close> with a summary entry whose
  count is the sum over the children of (count + 1) and whose size is the sum of the
  children's sizes. The sums are those of the machine integers: they are the mathematical
  sums modulo \<open>2 ^ 64\<close>.
\<close>

theorem short_directory_is_one_inline_list:
  assumes "collectDir T S st saf index cs [] s = (Inr base, s1)"
    and "length base \<le> maxDirEntries"
  shows "storeDir T S st saf index (FsDir n None cs None) s =
     (case StoreSchema T S st
             (ObjInlineList (typeDirEnt S) (map ObjDirEntry (sort_key de_Name base))) s1 of
        (Inl e, s2) \<Rightarrow> (Inl e, s2)
      | (Inr sr, s2) \<Rightarrow>
          (Inr (sr, \<lparr>de_Ref = Ref sr, de_Size = sum_list (map de_Size base),
                     de_Count = sum_list (map (\<lambda>e. de_Count e + 1) base), de_Name = []\<rparr>), s2))
     \<and> unat (sum_list (map de_Size base)) = sum_list (map (\<lambda>e. unat (de_Size e)) base) mod 2 ^ 64
     \<and> unat (sum_list (map (\<lambda>e. de_Count e + 1) base))
         = sum_list (map (\<lambda>e. unat (de_Count e) + 1) base) mod 2 ^ 64"
proof -
  have 1: "unat (sum_list (map de_Size base))
      = sum_list (map (\<lambda>e. unat (de_Size e)) base) mod 2 ^ 64"
    by (simp add: unat_sum_list comp_def)
  have h: "unat (c + 1) = (unat c + 1) mod 2 ^ 64" for c :: u64
    by (simp add: unat_word_ariths)
  have "unat (sum_list (map (\<lambda>e. de_Count e + 1) base))
      = sum_list (map (\<lambda>e. (unat (de_Count e) + 1) mod 2 ^ 64) base) mod 2 ^ 64"
    by (simp add: unat_sum_list comp_def h del: unat_word_ariths)
  then have 2: "unat (sum_list (map (\<lambda>e. de_Count e + 1) base))
      = sum_list (map (\<lambda>e. unat (de_Count e) + 1) base) mod 2 ^ 64"
    by (simp only: sum_list_mod)
  have "length (sort_key de_Name base) \<le> maxDirEntries"
    using assms(2) by simp
  then have "packDir T S st (sort_key de_Name base) s1
      = storeDirList T S st (sort_key de_Name base) s1"
    by (simp add: packDir_def)
  also have "\<dots> =
     (case StoreSchema T S st
             (ObjInlineList (typeDirEnt S) (map ObjDirEntry (sort_key de_Name base))) s1 of
        (Inl e, s2) \<Rightarrow> (Inl e, s2)
      | (Inr sr, s2) \<Rightarrow>
          (Inr (sr, \<lparr>de_Ref = Ref sr, de_Size = sum_list (map de_Size base),
                     de_Count = sum_list (map (\<lambda>e. de_Count e + 1) base), de_Name = []\<rparr>), s2))"
    unfolding storeDirList_eq
    by (simp only: sum_list_sort_key [of de_Size de_Name base]
        sum_list_sort_key [of "\<lambda>e. de_Count e + 1" de_Name base])
  finally show ?thesis
    using assms(1) 1 2 by simp
qed


lemma collectDir_demo_small:
  "collectDir demo_ops demo_schema (memStorage demo_ops) demo_saf False
     [FsFile ''b'' 5, FsFile ''.cas'' 9, FsFile ''a'' 3] [] []
   = (Inr [\<lparr>de_Ref = 6, de_Size = 5, de_Count = 0, de_Name = ''b''\<rparr>,
           \<lparr>de_Ref = 4, de_Size = 3, de_Count = 0, de_Name = ''a''\<rparr>], [])"
  by (simp add: demo_saf_def DefaultDir_def)

theorem short_directory_is_one_inline_list_witness:
  "collectDir demo_ops demo_schema (memStorage demo_ops) demo_saf False
     [FsFile ''b'' 5, FsFile ''.cas'' 9, FsFile ''a'' 3] [] []
   = (Inr [\<lparr>de_Ref = 6, de_Size = 5, de_Count = 0, de_Name = ''b''\<rparr>,
           \<lparr>de_Ref = 4, de_Size = 3, de_Count = 0, de_Name = ''a''\<rparr>], [])
   \<and> storeDir demo_ops demo_schema (memStorage demo_ops) demo_saf False
       (FsDir ''d'' None [FsFile ''b'' 5, FsFile ''.cas'' 9, FsFile ''a'' 3] None) []
     = (Inr (\<lparr>Ref = 4, Size = 3\<rparr>, \<lparr>de_Ref = 4, de_Size = 8, de_Count = 2, de_Name = []\<rparr>),
        [(4, [2, 0, 0])])"
proof -
  note c = collectDir_demo_small
  have l: "length [\<lparr>de_Ref = 6 :: nat, de_Size = 5, de_Count = 0, de_Name = ''b''\<rparr>,
           \<lparr>de_Ref = 4, de_Size = 3, de_Count = 0, de_Name = ''a''\<rparr>] \<le> maxDirEntries"
    by (simp add: maxDirEntries_def)
  have srt: "sort_key de_Name
            [\<lparr>de_Ref = 6 :: nat, de_Size = 5, de_Count = 0, de_Name = ''b''\<rparr>,
             \<lparr>de_Ref = 4, de_Size = 3, de_Count = 0, de_Name = ''a''\<rparr>]
      = [\<lparr>de_Ref = 4, de_Size = 3, de_Count = 0, de_Name = ''a''\<rparr>,
         \<lparr>de_Ref = 6, de_Size = 5, de_Count = 0, de_Name = ''b''\<rparr>]"
    by simp
  have s: "StoreSchema demo_ops demo_schema (memStorage demo_ops)
      (ObjInlineList (typeDirEnt demo_schema)
         (map ObjDirEntry
            [\<lparr>de_Ref = 4 :: nat, de_Size = 3, de_Count = 0, de_Name = ''a''\<rparr>,
             \<lparr>de_Ref = 6, de_Size = 5, de_Count = 0, de_Name = ''b''\<rparr>])) []
      = (Inr \<lparr>Ref = 4, Size = 3\<rparr>, [(4, [2, 0, 0])])"
    by (simp add: StoreSchema_def demo_schema_def demo_ops_def cas_StoreBlob_def Empty_def
        Zero_def cas_StatBlob_def memStorage_def mem_StoreBlob_def bytes_Reader_def Let_def)
  have "storeDir demo_ops demo_schema (memStorage demo_ops) demo_saf False
       (FsDir ''d'' None [FsFile ''b'' 5, FsFile ''.cas'' 9, FsFile ''a'' 3] None) []
     = (Inr (\<lparr>Ref = 4, Size = 3\<rparr>, \<lparr>de_Ref = 4, de_Size = 8, de_Count = 2, de_Name = []\<rparr>),
        [(4, [2, 0, 0])])"
    unfolding short_directory_is_one_inline_list [OF c l, of "''d''", THEN conjunct1] srt s
    by simp
  with c show ?thesis by simp
qed

text \<open>
  C10. For every directory whose collected entry list is longer than \<^verbatim>\<open>maxDirEntries\<close>, the
  entry \<^verbatim>\<open>storeDir\<close> returns has count 0 and size 0 (and no name); and the list node that
  \<^verbatim>\<open>storeDirJoin\<close> builds consists of the type tag and the refs it was given: it does not
  depend on the child lists, so it carries nothing aggregated from them.
\<close>

theorem long_directory_has_no_stats:
  assumes "collectDir T S st saf index cs [] s = (Inr base, s1)"
    and "maxDirEntries < length base"
    and "storeDir T S st saf index (FsDir n oe cs re) s = (Inr (sr, de), s2)"
  shows "de = \<lparr>de_Ref = Ref sr, de_Size = 0, de_Count = 0, de_Name = []\<rparr>
     \<and> (\<forall>refs list list' t. storeDirJoin T S st refs list t = storeDirJoin T S st refs list' t)
     \<and> (\<forall>refs list t sr' m t'. storeDirJoin T S st refs list t = (Inr (sr', m), t') \<longrightarrow>
           m = \<lparr>l_Elem = typeDirEnt S, l_List = refs\<rparr>)"
proof -
  have "\<not> length (sort_key de_Name base) \<le> maxDirEntries"
    using assms(2) by simp
  then have "de = \<lparr>de_Ref = Ref sr, de_Size = 0, de_Count = 0, de_Name = []\<rparr>"
    using assms(1,3)
    by (auto simp: packDir_def split: option.splits sum.splits prod.splits list.splits)
  moreover have "storeDirJoin T S st refs list t = storeDirJoin T S st refs list' t"
    for refs list list' t
    by (simp add: storeDirJoin_def)
  moreover have "m = \<lparr>l_Elem = typeDirEnt S, l_List = refs\<rparr>"
    if "storeDirJoin T S st refs list t = (Inr (sr', m), t')" for refs list t sr' m t'
    using that by (auto simp: storeDirJoin_def Let_def split: sum.splits prod.splits)
  ultimately show ?thesis by blast
qed

lemma healthy_demo: "healthy demo_ops demo_schema (memStorage demo_ops)"
  unfolding healthy_def
proof (intro allI)
  fix obj :: "nat object" and s :: "(nat \<times> byte list) list"
  obtain buf where e: "Encode demo_schema obj = Inr buf" and ne: "buf \<noteq> []"
    by (cases obj) (simp_all add: demo_schema_def)
  show "\<exists>sr s'. StoreSchema demo_ops demo_schema (memStorage demo_ops) obj s = (Inr sr, s')"
    using ne
    by (cases "map_of s (Suc (length buf))")
       (simp_all add: StoreSchema_def e cas_StoreBlob_def Empty_def Zero_def demo_ops_def
          cas_StatBlob_def memStorage_def mem_StoreBlob_def bytes_Reader_def Let_def)
qed

lemma storeDirList_ok:
  assumes "healthy T S st"
  shows "\<exists>sr de s'. storeDirList T S st list s = (Inr (sr, de), s')"
proof -
  obtain sr s' where "StoreSchema T S st (ObjInlineList (typeDirEnt S) (map ObjDirEntry list)) s
      = (Inr sr, s')"
    using assms unfolding healthy_def by blast
  then show ?thesis
    by (simp add: storeDirList_def Let_def)
qed

lemma leafLoop_ok:
  "healthy T S st \<Longrightarrow> length level = length refs \<Longrightarrow>
     \<exists>level' refs' s'. leafLoop T S st base cur level refs s = (Inr (level', refs'), s')
        \<and> length level' = length refs' \<and> (base \<noteq> [] \<or> level \<noteq> [] \<longrightarrow> level' \<noteq> [])"
proof (induction T S st base cur level refs s rule: leafLoop.induct)
  case (1 T S st base cur level refs s)
  note h = "1.prems"(1)
  let ?page = "take maxDirEntries base"
  let ?base' = "drop (length ?page) base"
  show ?case
  proof (cases "base = []")
    case True
    with "1.prems" show ?thesis by (subst leafLoop.simps) simp
  next
    case False
    obtain sr de s1 where l: "storeDirList T S st ?page s = (Inr (sr, de), s1)"
      using storeDirList_ok [OF h] by blast
    let ?cur1 = "cur\<lparr>l_List := l_List cur @ [Ref sr]\<rparr>"
    let ?cur2 = "?cur1\<lparr>l_Elem := typeDirEnt S\<rparr>"
    show ?thesis
    proof (cases "maxDirEntries \<le> length (l_List ?cur1) \<or> ?base' = []")
      case True
      obtain sr2 s2 where st: "StoreSchema T S st (ObjList ?cur2) s1 = (Inr sr2, s2)"
        using h unfolding healthy_def by blast
      have "\<exists>level' refs' s'.
          leafLoop T S st ?base' \<lparr>l_Elem = [], l_List = []\<rparr> (level @ [?cur2]) (refs @ [Ref sr2]) s2
            = (Inr (level', refs'), s')
          \<and> length level' = length refs'
          \<and> (?base' \<noteq> [] \<or> level @ [?cur2] \<noteq> [] \<longrightarrow> level' \<noteq> [])"
        using "1.prems"
        by (intro "1.IH"(1) [OF False refl refl l [symmetric] refl refl refl True
              refl st [symmetric] refl]) simp_all
      then show ?thesis
        using False l True st
        by (subst leafLoop.simps) (auto simp: Let_def)
    next
      case F: False
      have "\<exists>level' refs' s'.
          leafLoop T S st ?base' ?cur1 level refs s1 = (Inr (level', refs'), s')
          \<and> length level' = length refs'
          \<and> (?base' \<noteq> [] \<or> level \<noteq> [] \<longrightarrow> level' \<noteq> [])"
        using "1.prems"
        by (intro "1.IH"(2) [OF False refl refl l [symmetric] refl refl refl F])
      then show ?thesis
        using False l F
        by (subst leafLoop.simps) (auto simp: Let_def)
    qed
  qed
qed

lemma storeDirJoin_ok:
  assumes "healthy T S st"
  shows "\<exists>sr m s'. storeDirJoin T S st refs list s = (Inr (sr, m), s')"
proof -
  obtain sr s' where "StoreSchema T S st (ObjList \<lparr>l_Elem = typeDirEnt S, l_List = refs\<rparr>) s
      = (Inr sr, s')"
    using assms unfolding healthy_def by blast
  then show ?thesis
    by (simp add: storeDirJoin_def Let_def)
qed

lemma joinLoop_ok:
  "healthy T S st \<Longrightarrow> length level = length refs \<Longrightarrow> length newLevel = length newRefs \<Longrightarrow>
     \<exists>l r s'. joinLoop T S st level refs newLevel newRefs s = (Inr (l, r), s')
        \<and> length l = length r \<and> (level \<noteq> [] \<or> newLevel \<noteq> [] \<longrightarrow> l \<noteq> [])"
proof (induction T S st level refs newLevel newRefs s rule: joinLoop.induct)
  case (1 T S st level refs newLevel newRefs s)
  note h = "1.prems"(1)
  show ?case
  proof (cases "level = []")
    case True
    with "1.prems" show ?thesis by (subst joinLoop.simps) simp
  next
    case False
    define page where "page = take maxDirEntries level"
    have n: "\<not> length refs < length page"
      using "1.prems"(2) by (simp add: page_def)
    obtain sr cur s1 where
      j: "storeDirJoin T S st (take (length page) refs) page s = (Inr (sr, cur), s1)"
      using storeDirJoin_ok [OF h] by blast
    have "\<exists>l r s'. joinLoop T S st (drop (length page) level) (drop (length page) refs)
            (newLevel @ [cur]) (newRefs @ [Ref sr]) s1 = (Inr (l, r), s')
        \<and> length l = length r
        \<and> (drop (length page) level \<noteq> [] \<or> newLevel @ [cur] \<noteq> [] \<longrightarrow> l \<noteq> [])"
      using "1.prems"
      by (intro "1.IH" [OF False page_def n refl refl refl j [symmetric] refl refl]) simp_all
    then show ?thesis
      using False n j
      by (subst joinLoop.simps) (auto simp: Let_def page_def [symmetric])
  qed
qed

lemma joinLevels_ok:
  "healthy T S st \<Longrightarrow> length level = length refs \<Longrightarrow> level \<noteq> [] \<Longrightarrow>
     \<exists>l r s'. joinLevels T S st level refs s = (Inr (l, r), s') \<and> l \<noteq> []"
proof (induction T S st level refs s rule: joinLevels.induct)
  case (1 T S st level refs s)
  show ?case
  proof (cases "1 < length level")
    case True
    obtain nl nr s1 where j: "joinLoop T S st level refs [] [] s = (Inr (nl, nr), s1)"
      and len: "length nl = length nr" and ne: "nl \<noteq> []"
      using joinLoop_ok [OF "1.prems"(1,2), of "[]" "[]" s] "1.prems"(3) by auto
    have "\<exists>l r s'. joinLevels T S st nl nr s1 = (Inr (l, r), s') \<and> l \<noteq> []"
      using "1.IH" [OF True j [symmetric] refl refl "1.prems"(1) len ne] .
    then show ?thesis
      using True j by (subst joinLevels.simps) simp
  next
    case False
    with "1.prems" show ?thesis by (subst joinLevels.simps) simp
  qed
qed

lemma packDir_ok:
  assumes "healthy T S st"
  shows "\<exists>sr de s'. packDir T S st base s = (Inr (sr, de), s')"
proof (cases "length base \<le> maxDirEntries")
  case True
  then show ?thesis
    using storeDirList_ok [OF assms] by (simp add: packDir_def)
next
  case False
  then have ne: "base \<noteq> []" by auto
  obtain level refs s1 where
    l: "leafLoop T S st base \<lparr>l_Elem = [], l_List = []\<rparr> [] [] s = (Inr (level, refs), s1)"
    and len: "length level = length refs" and lne: "level \<noteq> []"
    using leafLoop_ok [OF assms, of "[]" "[]" base "\<lparr>l_Elem = [], l_List = []\<rparr>" s] ne by auto
  obtain level' refs' s2 where
    j: "joinLevels T S st level refs s1 = (Inr (level', refs'), s2)" and "level' \<noteq> []"
    using joinLevels_ok [OF assms len lne] by blast
  then obtain top0 rest where t: "level' = top0 # rest"
    by (cases level') auto
  obtain sr s3 where "StoreSchema T S st (ObjList top0) s2 = (Inr sr, s3)"
    using assms unfolding healthy_def by blast
  then show ?thesis
    using False l j t by (simp add: packDir_def)
qed

lemma collectDir_demo_files:
  "\<forall>i \<in> set is. nm i \<noteq> DefaultDir \<Longrightarrow>
     collectDir T S st demo_saf index (map (\<lambda>i. FsFile (nm i) (pl i)) is) base s
       = (Inr (base @ map (\<lambda>i. \<lparr>de_Ref = Suc (pl i), de_Size = of_nat (pl i), de_Count = 0,
                                 de_Name = nm i\<rparr>) is), s)"
  by (induction "is" arbitrary: base) (simp_all add: demo_saf_def)

theorem long_directory_has_no_stats_witness:
  "maxDirEntries < length (map (\<lambda>i. \<lparr>de_Ref = Suc i, de_Size = of_nat i, de_Count = 0,
                                     de_Name = replicate (Suc i) (CHR ''a'')\<rparr>) [0..<1025])
   \<and> (\<exists>sr s2.
        storeDir demo_ops demo_schema (memStorage demo_ops) demo_saf False
          (FsDir ''d'' None (map (\<lambda>i. FsFile (replicate (Suc i) (CHR ''a'')) i) [0..<1025]) None) []
        = (Inr (sr, \<lparr>de_Ref = Ref sr, de_Size = 0, de_Count = 0, de_Name = []\<rparr>), s2))"
proof -
  define cs :: "nat fsnode list"
    where "cs = map (\<lambda>i. FsFile (replicate (Suc i) (CHR ''a'')) i) [0..<1025]"
  define base :: "nat DirEntry list"
    where "base = map (\<lambda>i. \<lparr>de_Ref = Suc i, de_Size = of_nat i, de_Count = 0,
                              de_Name = replicate (Suc i) (CHR ''a'')\<rparr>) [0..<1025]"
  have c: "collectDir demo_ops demo_schema (memStorage demo_ops) demo_saf False cs [] []
      = (Inr base, [])"
    unfolding cs_def base_def
    using collectDir_demo_files [of "[0..<1025]" "\<lambda>i. replicate (Suc i) (CHR ''a'')"
        demo_ops demo_schema "memStorage demo_ops" False "\<lambda>i. i" "[]" "[]"]
    by (simp add: DefaultDir_def)
  have l: "maxDirEntries < length base"
    by (simp add: base_def maxDirEntries_def)
  obtain sr de s2 where p: "packDir demo_ops demo_schema (memStorage demo_ops)
      (sort_key de_Name base) [] = (Inr (sr, de), s2)"
    using packDir_ok [OF healthy_demo] by blast
  have s: "storeDir demo_ops demo_schema (memStorage demo_ops) demo_saf False
      (FsDir ''d'' None cs None) [] = (Inr (sr, de), s2)"
    using c p by simp
  from long_directory_has_no_stats [OF c l s]
  have "de = \<lparr>de_Ref = Ref sr, de_Size = 0, de_Count = 0, de_Name = []\<rparr>"
    by (rule conjunct1)
  with s l show ?thesis
    unfolding cs_def base_def by blast
qed


section \<open>The iterator\<close>

lemma next_loop_walk_True:
  "next_loop T infos it s = (True, it', s') \<Longrightarrow> it_err it = None \<Longrightarrow>
     it_err it' = None
     \<and> (\<exists>rest. it_infos it' = Some rest \<and> length rest < length infos
           \<and> walk T infos s = (case walk T rest s' of (xs, r) \<Rightarrow> (it_sr it' # xs, r)))"
proof (induction T infos it s rule: next_loop.induct)
  case (1 T it s)
  then show ?case by simp
next
  case (2 T i rest it s)
  show ?case
  proof (cases "fi_IsRegular i")
    case False
    with 2 show ?thesis by fastforce
  next
    case True
    then show ?thesis
      using "2.prems" "2.IH"(2)
      by (fastforce simp: Let_def split: sum.splits prod.splits if_splits)
  qed
qed

lemma next_loop_walk_False:
  "next_loop T infos it s = (False, it', s') \<Longrightarrow> it_err it = None \<Longrightarrow>
     walk T infos s = ([], it_err it', s') \<and> (it_err it' = None \<longrightarrow> it_infos it' = Some [])"
proof (induction T infos it s rule: next_loop.induct)
  case (1 T it s)
  then show ?case by auto
next
  case (2 T i rest it s)
  show ?case
  proof (cases "fi_IsRegular i")
    case False
    with 2 show ?thesis by fastforce
  next
    case True
    then show ?thesis
      using "2.prems" "2.IH"(2)
      by (fastforce simp: Let_def split: sum.splits prod.splits if_splits)
  qed
qed

lemma drain_walk:
  "it_err it = None \<Longrightarrow>
   (case it_infos it of
      None \<Rightarrow> fails s SysOpenDir = None \<and> fails s SysReaddir = None \<and> infos = listing s
    | Some l \<Rightarrow> infos = l) \<Longrightarrow>
     (case drain T it s of
        (items, it', s') \<Rightarrow>
          (items, it_err it', s') = walk T infos s
          \<and> (it_err it' \<noteq> None \<or> it_infos it' = Some []))"
proof (induction infos arbitrary: it s rule: length_induct)
  case (1 infos)
  let ?it = "it\<lparr>it_sr := \<lparr>Ref = ZeroRef T, Size = 0\<rparr>\<rparr>"
  have e: "it_err ?it = None" using "1.prems" by simp
  have n: "Next T it s = next_loop T infos ?it s"
    using "1.prems"
    by (simp add: Next_def Let_def os_OpenDir_def os_Readdir_def listing_def
        split: option.splits)
  obtain b it1 s1 where nl: "next_loop T infos ?it s = (b, it1, s1)"
    by (cases "next_loop T infos ?it s") auto
  show ?case
  proof (cases b)
    case True
    from nl True have nl': "next_loop T infos ?it s = (True, it1, s1)" by simp
    from next_loop_walk_True [OF nl' e] obtain rest where
      r: "it_err it1 = None" "it_infos it1 = Some rest" "length rest < length infos"
        "walk T infos s = (case walk T rest s1 of (xs, r) \<Rightarrow> (it_sr it1 # xs, r))"
      by auto
    have "case it_infos it1 of
        None \<Rightarrow> fails s1 SysOpenDir = None \<and> fails s1 SysReaddir = None \<and> rest = listing s1
      | Some l \<Rightarrow> rest = l"
      using r(2) by simp
    then have "case drain T it1 s1 of
        (items, it', s') \<Rightarrow>
          (items, it_err it', s') = walk T rest s1
          \<and> (it_err it' \<noteq> None \<or> it_infos it' = Some [])"
      using "1.IH" [rule_format, OF r(3) r(1), of s1] by simp
    then show ?thesis
      using n nl True r(4)
      by (subst drain.simps) (auto split: prod.splits)
  next
    case False
    from nl False have nl': "next_loop T infos ?it s = (False, it1, s1)" by simp
    from next_loop_walk_False [OF nl' e]
    have "walk T infos s = ([], it_err it1, s1)" "it_err it1 = None \<longrightarrow> it_infos it1 = Some []"
      by auto
    then show ?thesis
      using n nl False
      by (subst drain.simps) auto
  qed
qed

lemma walk_spec:
  assumes "fails s SysChmod = None" and "fails s SysRemove = None"
    and "distinct (map fi_Name infos)"
    and "\<forall>i \<in> set infos. map_of (blobs s) (fi_Name i) \<noteq> None"
    and "\<forall>i \<in> set infos. \<forall>r. ParseRef T (fi_Name i) = Inr r \<longrightarrow> RefString T r = fi_Name i"
  shows "walk T infos s = (spec_items T infos, spec_err T infos, spec_healed T infos s)"
  using assms
proof (induction infos arbitrary: s)
  case Nil
  then show ?case
    by (simp add: spec_items_def spec_err_def spec_healed_def spec_accepted_def)
next
  case (Cons i rest)
  have IH: "walk T rest s' = (spec_items T rest, spec_err T rest, spec_healed T rest s')"
    if "fails s' = fails s" "\<forall>j \<in> set rest. map_of (blobs s') (fi_Name j) \<noteq> None" for s'
    using Cons.IH [of s'] Cons.prems that by simp
  show ?case
  proof (cases "fi_IsRegular i")
    case False
    then show ?thesis
      using IH [of s] Cons.prems(4)
      by (simp add: spec_items_def spec_err_def spec_healed_def spec_accepted_def)
  next
    case reg: True
    show ?thesis
    proof (cases "ParseRef T (fi_Name i)")
      case (Inl e)
      then show ?thesis
        using reg
        by (simp add: spec_items_def spec_err_def spec_healed_def spec_accepted_def parses_def)
    next
      case (Inr r)
      then have p: "parses T i" "ref_of T i = r"
        by (simp_all add: parses_def ref_of_def)
      have path: "blobPath T r = Blobs (fi_Name i)"
        using Cons.prems(5) Inr by (simp add: blobPath_def)
      show ?thesis
      proof (cases "crashed T i")
        case True
        obtain f where f: "lookup (blobPath T r) s = Some f"
          using Cons.prems(4) path by auto
        have h: "removeIfInvalid T i r s = (Inr True, unlink (Blobs (fi_Name i)) s)"
          using removeIfInvalid_heals [OF _ _ f Cons.prems(1,2), of i] True p path
          by (simp add: crashed_def)
        let ?s' = "unlink (Blobs (fi_Name i)) s"
        have "\<forall>j \<in> set rest. map_of (blobs ?s') (fi_Name j) \<noteq> None"
        proof
          fix j
          assume j: "j \<in> set rest"
          have "fi_Name i \<notin> fi_Name ` set rest"
            using Cons.prems(3) by simp
          then have "fi_Name j \<noteq> fi_Name i"
            using j by (metis imageI)
          then show "map_of (blobs ?s') (fi_Name j) \<noteq> None"
            using Cons.prems(4) j by (simp add: delete_conv')
        qed
        from IH [OF _ this]
        have w: "walk T rest ?s' = (spec_items T rest, spec_err T rest, spec_healed T rest ?s')"
          by simp
        have "spec_healed T rest ?s' = spec_healed T (i # rest) s"
          using reg p True
          apply (simp add: spec_healed_def spec_accepted_def AList.delete_eq)
          apply (rule arg_cong [where f = "\<lambda>b. s\<lparr>blobs := b\<rparr>"])
          apply (rule filter_cong [OF refl])
          apply auto
          done
        then show ?thesis
          using reg Inr h w p True
          by (simp add: spec_items_def spec_err_def spec_accepted_def)
      next
        case False
        then have h: "removeIfInvalid T i r s = (Inr False, s)"
          using p by (intro removeIfInvalid_valid) (auto simp: crashed_def)
        have w: "walk T rest s = (spec_items T rest, spec_err T rest, spec_healed T rest s)"
          using IH [of s] Cons.prems(4) by simp
        have "spec_healed T rest s = spec_healed T (i # rest) s"
          using reg p False
          by (simp add: spec_healed_def spec_accepted_def)
        then show ?thesis
          using reg Inr h w p False
          by (simp add: spec_items_def spec_err_def spec_accepted_def)
      qed
    qed
  qed
qed

lemma listing_names:
  "map fi_Name (map (\<lambda>(n, f). info n f) bs) = map fst bs"
  by (induction bs) (auto simp: info_def)

lemma distinct_map_sort_key:
  "distinct (map f (sort_key k xs)) = distinct (map f xs)"
  by (simp add: distinct_map)

lemma listing_distinct:
  assumes "distinct (map fst (blobs s))"
  shows "distinct (map fi_Name (listing s))"
  unfolding listing_def distinct_map_sort_key listing_names
  using assms .

lemma listing_sorted: "sorted (map fi_Name (listing s))"
  by (simp add: listing_def)

lemma listing_set:
  "i \<in> set (listing s) \<Longrightarrow> \<exists>f. (fi_Name i, f) \<in> set (blobs s)"
  by (auto simp: listing_def info_def)

lemma spec_items_names:
  assumes "\<forall>i \<in> set infos. \<forall>r. ParseRef T (fi_Name i) = Inr r \<longrightarrow> RefString T r = fi_Name i"
  shows "map (RefString T \<circ> Ref) (spec_items T infos)
     = map fi_Name (filter (\<lambda>i. \<not> crashed T i) (spec_accepted T infos))"
proof -
  have "RefString T (ref_of T i) = fi_Name i" if "i \<in> set (spec_accepted T infos)" for i
  proof -
    from that have "parses T i" "i \<in> set infos"
      unfolding spec_accepted_def
      by (auto dest: set_takeWhileD)
    then show ?thesis
      using assms by (auto simp: parses_def ref_of_def split: sum.splits)
  qed
  then show ?thesis
    by (simp add: spec_items_def)
qed

text \<open>
  C8. In a \<^verbatim>\<open>blobs/\<close> directory whose files carry canonical names, which can be listed and
  whose crash artifacts can be cleaned up, the items \<^verbatim>\<open>IterateBlobs\<close> yields until \<^verbatim>\<open>Next\<close>
  returns false are exactly those the spec describes: the entries in ascending filename
  order, without the entries that are not regular files, up to the first filename that
  fails ref parsing, without the crash artifacts, which are removed from the store. The
  canonical strings of the refs yielded are strictly ascending, the iterator's error is
  the parse error (if any), and \<^verbatim>\<open>Next\<close> keeps returning false afterwards.
\<close>

theorem IterateBlobs_yields_valid_blobs_in_order:
  assumes "distinct (map fst (blobs s))"
    and "\<forall>(n, f) \<in> set (blobs s). \<forall>r. ParseRef T n = Inr r \<longrightarrow> RefString T r = n"
    and "fails s SysOpenDir = None" and "fails s SysReaddir = None"
    and "fails s SysChmod = None" and "fails s SysRemove = None"
    and "drain T (IterateBlobs T) s = (items, it', s')"
  shows "items = spec_items T (listing s)
     \<and> it_err it' = spec_err T (listing s)
     \<and> s' = spec_healed T (listing s) s
     \<and> sorted_wrt (<) (map (RefString T \<circ> Ref) items)
     \<and> \<not> fst (Next T it' s')"
proof -
  have d: "distinct (map fi_Name (listing s))"
    using assms(1) by (rule listing_distinct)
  have ex: "\<forall>i \<in> set (listing s). map_of (blobs s) (fi_Name i) \<noteq> None"
  proof
    fix i
    assume "i \<in> set (listing s)"
    then obtain f where "(fi_Name i, f) \<in> set (blobs s)"
      using listing_set by blast
    then show "map_of (blobs s) (fi_Name i) \<noteq> None"
      by (metis map_of_eq_None_iff fst_conv imageI)
  qed
  have canon: "\<forall>i \<in> set (listing s). \<forall>r. ParseRef T (fi_Name i) = Inr r \<longrightarrow> RefString T r = fi_Name i"
    using assms(2) listing_set by fastforce
  have w: "walk T (listing s) s
      = (spec_items T (listing s), spec_err T (listing s), spec_healed T (listing s) s)"
    using walk_spec [OF assms(5,6) d ex canon] .
  from drain_walk [of "IterateBlobs T" s "listing s" T] assms(3,4,7)
  have r: "(items, it_err it', s') = walk T (listing s) s"
    and fin: "it_err it' \<noteq> None \<or> it_infos it' = Some []"
    by (simp_all add: IterateBlobs_def)
  have "sorted_wrt (<) (map fi_Name (listing s))"
    using d listing_sorted by (simp add: strict_sorted_iff)
  then have "sorted_wrt (\<lambda>a b. fi_Name a < fi_Name b) (listing s)"
    by (simp add: sorted_wrt_map)
  then have "sorted_wrt (\<lambda>a b. fi_Name a < fi_Name b)
      (filter (\<lambda>i. \<not> crashed T i) (spec_accepted T (listing s)))"
    unfolding spec_accepted_def
    by (intro sorted_wrt_filter sorted_wrt_takeWhile)
  then have srt: "sorted_wrt (<) (map (RefString T \<circ> Ref) (spec_items T (listing s)))"
    unfolding spec_items_names [OF canon] by (simp add: sorted_wrt_map)
  have "\<not> fst (Next T it' s')"
    using fin by (auto simp: Next_def Let_def)
  with r w srt show ?thesis by simp
qed


lemma demo_listing:
  "listing demo_dir =
     [\<lparr>fi_Name = ''ref-ii'', fi_Size = 0, fi_IsRegular = True\<rparr>,
      \<lparr>fi_Name = ''ref-iii'', fi_Size = 2, fi_IsRegular = True\<rparr>,
      \<lparr>fi_Name = ''sub'', fi_Size = 0, fi_IsRegular = False\<rparr>,
      \<lparr>fi_Name = ''zzz'', fi_Size = 1, fi_IsRegular = True\<rparr>]"
  by (simp add: listing_def demo_dir_def demo_store_def demo_blob_def info_def)

lemma demo_parse:
  "ParseRef demo_ops ''ref-ii'' = Inr 2" "ParseRef demo_ops ''ref-iii'' = Inr 3"
  "ParseRef demo_ops ''sub'' = Inl (Errorf ''invalid ref'')"
  "ParseRef demo_ops ''zzz'' = Inl (Errorf ''invalid ref'')"
  by (simp_all add: demo_ops_def numeral_2_eq_2 numeral_3_eq_3)

theorem IterateBlobs_yields_valid_blobs_in_order_witness:
  "\<exists>it'. drain demo_ops (IterateBlobs demo_ops) demo_dir
           = ([\<lparr>Ref = 3, Size = 2\<rparr>], it', demo_dir_healed)
         \<and> it_err it' = Some (Errorf ''invalid ref'')
         \<and> \<not> fst (Next demo_ops it' demo_dir_healed)"
proof -
  obtain items it' s' where d: "drain demo_ops (IterateBlobs demo_ops) demo_dir = (items, it', s')"
    by (cases "drain demo_ops (IterateBlobs demo_ops) demo_dir") auto
  have h1: "distinct (map fst (blobs demo_dir))"
    by (simp add: demo_dir_def demo_store_def)
  have h2: "\<forall>(n, f) \<in> set (blobs demo_dir). \<forall>r. ParseRef demo_ops n = Inr r \<longrightarrow> RefString demo_ops r = n"
    by (simp add: demo_dir_def demo_store_def demo_parse)
       (simp add: demo_ops_def numeral_2_eq_2 numeral_3_eq_3)
  have h3: "fails demo_dir SysOpenDir = None" "fails demo_dir SysReaddir = None"
    "fails demo_dir SysChmod = None" "fails demo_dir SysRemove = None"
    by (simp_all add: demo_dir_def)
  have i: "spec_items demo_ops (listing demo_dir) = [\<lparr>Ref = 3, Size = 2\<rparr>]"
    by (simp add: demo_listing spec_items_def spec_accepted_def parses_def crashed_def ref_of_def
        demo_parse) (simp add: Empty_def demo_ops_def)
  have e: "spec_err demo_ops (listing demo_dir) = Some (Errorf ''invalid ref'')"
    by (simp add: demo_listing spec_err_def parses_def demo_parse)
  have s: "spec_healed demo_ops (listing demo_dir) demo_dir = demo_dir_healed"
    by (simp add: demo_listing spec_healed_def spec_accepted_def parses_def crashed_def ref_of_def
        demo_parse) (simp add: Empty_def demo_ops_def demo_dir_def demo_dir_healed_def demo_store_def)
  from IterateBlobs_yields_valid_blobs_in_order [OF h1 h2 h3 d, unfolded i e s]
  have "items = [\<lparr>Ref = 3, Size = 2\<rparr>] \<and> it_err it' = Some (Errorf ''invalid ref'')
      \<and> s' = demo_dir_healed \<and> \<not> fst (Next demo_ops it' s')"
    by blast
  with d show ?thesis by auto
qed

section \<open>The importer: independence of the enumeration order\<close>

lemma StoreSchema_Ref:
  assumes "faithful T st" and "StoreSchema T S st obj s = (Inr sr, s')"
  shows "Ref sr = objRef T S obj"
proof -
  from assms(2) obtain buf where e: "Encode S obj = Inr buf"
    by (cases "Encode S obj") (auto simp: StoreSchema_def)
  from assms(2) e obtain rd' where
    c: "cas_StoreBlob T st (BytesRef T buf) (bytes_Reader buf) s = (Inr sr, rd', s')"
    by (auto simp: StoreSchema_def split: prod.splits)
  have "Ref sr = BytesRef T buf"
  proof (cases "Empty T (BytesRef T buf)")
    case True
    with c show ?thesis
      by (auto simp: cas_StoreBlob_def split: prod.splits if_splits)
  next
    case False
    show ?thesis
    proof (cases "Zero T (BytesRef T buf)")
      case True
      with False c have "st_StoreBlob st (BytesRef T buf) (bytes_Reader buf) s = (Inr sr, rd', s')"
        by (simp add: cas_StoreBlob_def)
      with assms(1) show ?thesis
        unfolding faithful_def by blast
    next
      case nz: False
      obtain res s1 where st: "cas_StatBlob T st (BytesRef T buf) s = (res, s1)"
        by (cases "cas_StatBlob T st (BytesRef T buf) s") auto
      show ?thesis
      proof (cases res)
        case (Inr sz)
        with False nz c st show ?thesis
          by (auto simp: cas_StoreBlob_def)
      next
        case (Inl err)
        with False nz c st have "st_StoreBlob st (BytesRef T buf) (bytes_Reader buf) s1 = (Inr sr, rd', s')"
          by (simp add: cas_StoreBlob_def)
        with assms(1) show ?thesis
          unfolding faithful_def by blast
      qed
    qed
  qed
  with e show ?thesis
    by (simp add: objRef_def)
qed

lemma storeDirList_det:
  assumes "faithful T st"
    and "storeDirList T S st list s = (Inr (sr, de), s')"
    and "storeDirList T S st list t = (Inr (sr', de'), t')"
  shows "Ref sr = Ref sr' \<and> de = de'"
proof -
  let ?m = "ObjInlineList (typeDirEnt S) (map ObjDirEntry list)"
  from assms(2) have 1: "StoreSchema T S st ?m s = (Inr sr, s')"
    and d1: "de = \<lparr>de_Ref = Ref sr, de_Size = sum_list (map de_Size list),
                  de_Count = sum_list (map (\<lambda>e. de_Count e + 1) list), de_Name = []\<rparr>"
    by (auto simp: storeDirList_eq split: prod.splits sum.splits)
  from assms(3) have 2: "StoreSchema T S st ?m t = (Inr sr', t')"
    and d2: "de' = \<lparr>de_Ref = Ref sr', de_Size = sum_list (map de_Size list),
                  de_Count = sum_list (map (\<lambda>e. de_Count e + 1) list), de_Name = []\<rparr>"
    by (auto simp: storeDirList_eq split: prod.splits sum.splits)
  have "Ref sr = Ref sr'"
    using StoreSchema_Ref [OF assms(1) 1] StoreSchema_Ref [OF assms(1) 2] by simp
  with d1 d2 show ?thesis by simp
qed

lemma storeDirJoin_det:
  assumes "faithful T st"
    and "storeDirJoin T S st refs list s = (Inr (sr, m), s')"
    and "storeDirJoin T S st refs list t = (Inr (sr', m'), t')"
  shows "Ref sr = Ref sr' \<and> m = m'"
proof -
  let ?m = "\<lparr>l_Elem = typeDirEnt S, l_List = refs\<rparr>"
  from assms(2) have 1: "StoreSchema T S st (ObjList ?m) s = (Inr sr, s')" and "m = ?m"
    by (auto simp: storeDirJoin_def Let_def split: prod.splits sum.splits)
  moreover from assms(3) have 2: "StoreSchema T S st (ObjList ?m) t = (Inr sr', t')" and "m' = ?m"
    by (auto simp: storeDirJoin_def Let_def split: prod.splits sum.splits)
  ultimately show ?thesis
    using StoreSchema_Ref [OF assms(1) 1] StoreSchema_Ref [OF assms(1) 2] by simp
qed

lemma leafLoop_det:
  "faithful T st \<Longrightarrow>
   leafLoop T S st base cur level refs s = (Inr (l1, r1), s') \<Longrightarrow>
   leafLoop T S st base cur level refs t = (Inr (l2, r2), t') \<Longrightarrow> l1 = l2 \<and> r1 = r2"
proof (induction T S st base cur level refs s arbitrary: t rule: leafLoop.induct)
  case (1 T S st base cur level refs s)
  note f = "1.prems"(1)
  let ?page = "take maxDirEntries base"
  let ?base' = "drop (length ?page) base"
  show ?case
  proof (cases "base = []")
    case True
    with "1.prems"(2,3) show ?thesis
      by (simp add: leafLoop.simps)
  next
    case False
    from "1.prems"(2) False obtain sr de s1 where
      a: "storeDirList T S st ?page s = (Inr (sr, de), s1)"
      by (subst (asm) leafLoop.simps) (auto simp: Let_def split: prod.splits sum.splits)
    from "1.prems"(3) False obtain sr' de' t1 where
      b: "storeDirList T S st ?page t = (Inr (sr', de'), t1)"
      by (subst (asm) leafLoop.simps) (auto simp: Let_def split: prod.splits sum.splits)
    have r: "Ref sr' = Ref sr"
      using storeDirList_det [OF f a b] by simp
    let ?cur1 = "cur\<lparr>l_List := l_List cur @ [Ref sr]\<rparr>"
    let ?cur2 = "?cur1\<lparr>l_Elem := typeDirEnt S\<rparr>"
    show ?thesis
    proof (cases "maxDirEntries \<le> length (l_List ?cur1) \<or> ?base' = []")
      case True
      from "1.prems"(2) False a True obtain sr2 s2 where
        c: "StoreSchema T S st (ObjList ?cur2) s1 = (Inr sr2, s2)"
        and c': "leafLoop T S st ?base' \<lparr>l_Elem = [], l_List = []\<rparr> (level @ [?cur2])
                   (refs @ [Ref sr2]) s2 = (Inr (l1, r1), s')"
        by (subst (asm) leafLoop.simps) (auto simp: Let_def split: prod.splits sum.splits)
      from "1.prems"(3) False b True r obtain sr2' t2 where
        d: "StoreSchema T S st (ObjList ?cur2) t1 = (Inr sr2', t2)"
        and d': "leafLoop T S st ?base' \<lparr>l_Elem = [], l_List = []\<rparr> (level @ [?cur2])
                   (refs @ [Ref sr2']) t2 = (Inr (l2, r2), t')"
        by (subst (asm) leafLoop.simps) (auto simp: Let_def split: prod.splits sum.splits)
      have "Ref sr2' = Ref sr2"
        using StoreSchema_Ref [OF f c] StoreSchema_Ref [OF f d] by simp
      with d' have d'': "leafLoop T S st ?base' \<lparr>l_Elem = [], l_List = []\<rparr> (level @ [?cur2])
                   (refs @ [Ref sr2]) t2 = (Inr (l2, r2), t')"
        by simp
      show ?thesis
        using "1.IH"(1) [OF False refl refl a [symmetric] refl refl refl True refl c [symmetric]
            refl f c' d''] .
    next
      case F: False
      from "1.prems"(2) False a F have
        c': "leafLoop T S st ?base' ?cur1 level refs s1 = (Inr (l1, r1), s')"
        by (subst (asm) leafLoop.simps) (auto simp: Let_def split: prod.splits sum.splits)
      from "1.prems"(3) False b F r have
        d': "leafLoop T S st ?base' ?cur1 level refs t1 = (Inr (l2, r2), t')"
        by (subst (asm) leafLoop.simps) (auto simp: Let_def split: prod.splits sum.splits)
      show ?thesis
        using "1.IH"(2) [OF False refl refl a [symmetric] refl refl refl F f c' d'] .
    qed
  qed
qed


lemma joinLoop_det:
  "faithful T st \<Longrightarrow>
   joinLoop T S st level refs newLevel newRefs s = (Inr (l1, r1), s') \<Longrightarrow>
   joinLoop T S st level refs newLevel newRefs t = (Inr (l2, r2), t') \<Longrightarrow> l1 = l2 \<and> r1 = r2"
proof (induction T S st level refs newLevel newRefs s arbitrary: t rule: joinLoop.induct)
  case (1 T S st level refs newLevel newRefs s)
  note f = "1.prems"(1)
  let ?page = "take maxDirEntries level"
  show ?case
  proof (cases "level = []")
    case True
    with "1.prems"(2,3) show ?thesis
      by (simp add: joinLoop.simps)
  next
    case False
    from "1.prems"(2) False obtain sr cur s1 where
      n: "\<not> length refs < length ?page"
      and a: "storeDirJoin T S st (take (length ?page) refs) ?page s = (Inr (sr, cur), s1)"
      and a': "joinLoop T S st (drop (length ?page) level) (drop (length ?page) refs)
                 (newLevel @ [cur]) (newRefs @ [Ref sr]) s1 = (Inr (l1, r1), s')"
      by (subst (asm) joinLoop.simps)
         (auto simp: Let_def split: prod.splits sum.splits if_splits)
    from "1.prems"(3) False obtain sr' cur' t1 where
      b: "storeDirJoin T S st (take (length ?page) refs) ?page t = (Inr (sr', cur'), t1)"
      and b': "joinLoop T S st (drop (length ?page) level) (drop (length ?page) refs)
                 (newLevel @ [cur']) (newRefs @ [Ref sr']) t1 = (Inr (l2, r2), t')"
      by (subst (asm) joinLoop.simps)
         (auto simp: Let_def split: prod.splits sum.splits if_splits)
    have "Ref sr' = Ref sr \<and> cur' = cur"
      using storeDirJoin_det [OF f a b] by simp
    with b' have b'': "joinLoop T S st (drop (length ?page) level) (drop (length ?page) refs)
                 (newLevel @ [cur]) (newRefs @ [Ref sr]) t1 = (Inr (l2, r2), t')"
      by simp
    show ?thesis
      using "1.IH" [OF False refl n refl refl refl a [symmetric] refl refl f a' b''] .
  qed
qed

lemma joinLevels_det:
  "faithful T st \<Longrightarrow>
   joinLevels T S st level refs s = (Inr (l1, r1), s') \<Longrightarrow>
   joinLevels T S st level refs t = (Inr (l2, r2), t') \<Longrightarrow> l1 = l2 \<and> r1 = r2"
proof (induction T S st level refs s arbitrary: t rule: joinLevels.induct)
  case (1 T S st level refs s)
  note f = "1.prems"(1)
  show ?case
  proof (cases "1 < length level")
    case False
    with "1.prems"(2,3) show ?thesis
      by (simp add: joinLevels.simps)
  next
    case True
    from "1.prems"(2) True obtain nl nr s1 where
      a: "joinLoop T S st level refs [] [] s = (Inr (nl, nr), s1)"
      and a': "joinLevels T S st nl nr s1 = (Inr (l1, r1), s')"
      by (subst (asm) joinLevels.simps) (auto split: prod.splits sum.splits)
    from "1.prems"(3) True obtain nl' nr' t1 where
      b: "joinLoop T S st level refs [] [] t = (Inr (nl', nr'), t1)"
      and b': "joinLevels T S st nl' nr' t1 = (Inr (l2, r2), t')"
      by (subst (asm) joinLevels.simps) (auto split: prod.splits sum.splits)
    have "nl' = nl \<and> nr' = nr"
      using joinLoop_det [OF f a b] by simp
    with b' have b'': "joinLevels T S st nl nr t1 = (Inr (l2, r2), t')"
      by simp
    show ?thesis
      using "1.IH" [OF True a [symmetric] refl refl f a' b''] .
  qed
qed

lemma packDir_det:
  assumes f: "faithful T st"
    and a: "packDir T S st base s = (Inr (sr, de), s')"
    and b: "packDir T S st base t = (Inr (sr', de'), t')"
  shows "Ref sr = Ref sr' \<and> de = de'"
proof (cases "length base \<le> maxDirEntries")
  case True
  with a b show ?thesis
    using storeDirList_det [OF f, of S base s sr de s' t sr' de' t']
    by (simp add: packDir_def)
next
  case False
  from a False obtain level refs s1 level' refs' s2 top0 rest where
    a1: "leafLoop T S st base \<lparr>l_Elem = [], l_List = []\<rparr> [] [] s = (Inr (level, refs), s1)"
    and a2: "joinLevels T S st level refs s1 = (Inr (level', refs'), s2)"
    and a3: "level' = top0 # rest"
    and a4: "StoreSchema T S st (ObjList top0) s2 = (Inr sr, s')"
    and a5: "de = \<lparr>de_Ref = Ref sr, de_Size = 0, de_Count = 0, de_Name = []\<rparr>"
    by (auto simp: packDir_def split: prod.splits sum.splits list.splits)
  from b False obtain levelb refsb t1 levelb' refsb' t2 topb restb where
    b1: "leafLoop T S st base \<lparr>l_Elem = [], l_List = []\<rparr> [] [] t = (Inr (levelb, refsb), t1)"
    and b2: "joinLevels T S st levelb refsb t1 = (Inr (levelb', refsb'), t2)"
    and b3: "levelb' = topb # restb"
    and b4: "StoreSchema T S st (ObjList topb) t2 = (Inr sr', t')"
    and b5: "de' = \<lparr>de_Ref = Ref sr', de_Size = 0, de_Count = 0, de_Name = []\<rparr>"
    by (auto simp: packDir_def split: prod.splits sum.splits list.splits)
  have "levelb = level \<and> refsb = refs"
    using leafLoop_det [OF f a1 b1] by simp
  with b2 have "joinLevels T S st level refs t1 = (Inr (levelb', refsb'), t2)"
    by simp
  from joinLevels_det [OF f a2 this] a3 b3 have "topb = top0"
    by simp
  with b4 have "Ref sr' = Ref sr"
    using StoreSchema_Ref [OF f a4] StoreSchema_Ref [OF f, of S "ObjList top0" t2 sr' t'] by simp
  with a5 b5 show ?thesis
    by simp
qed

lemma filter_key_single:
  "distinct (map f zs) \<Longrightarrow> k \<in> set zs \<Longrightarrow> filter (\<lambda>x. f k = f x) zs = [k]"
  by (induction zs) (auto simp: filter_empty_conv image_iff)

lemma sort_key_unique:
  assumes m: "mset xs = mset ys" and d: "distinct (map f xs)"
  shows "sort_key f xs = sort_key f ys"
proof (rule properties_for_sort_key)
  show "mset (sort_key f ys) = mset xs"
    using m by simp
  show "sorted (map f (sort_key f ys))"
    by simp
  have "mset (map f ys) = mset (map f xs)"
    using m by simp
  then have d': "distinct (map f ys)"
    using d by (metis mset_eq_imp_distinct_iff)
  fix k
  assume "k \<in> set (sort_key f ys)"
  then have k: "k \<in> set ys" by simp
  then have k': "k \<in> set xs"
    using m by (metis mset_eq_setD)
  have "filter (\<lambda>x. f k = f x) (sort_key f ys) = sort_key f (filter (\<lambda>x. f k = f x) ys)"
    by (simp add: filter_sort)
  also have "\<dots> = [k]"
    by (simp add: filter_key_single [OF d' k])
  finally show "filter (\<lambda>x. f k = f x) (sort_key f ys) = filter (\<lambda>x. f k = f x) xs"
    by (simp add: filter_key_single [OF d k'])
qed

lemma list_all2_fun:
  "list_all2 E xs es \<Longrightarrow> (\<And>x e. x \<in> set xs \<Longrightarrow> E x e \<Longrightarrow> e = g x) \<Longrightarrow> es = map g xs"
  by (induction rule: list_all2_induct) auto

lemma list_all2_fun2:
  "list_all2 R xs ys \<Longrightarrow> list_all2 E xs es \<Longrightarrow>
   (\<And>x y e. x \<in> set xs \<Longrightarrow> y \<in> set ys \<Longrightarrow> R x y \<Longrightarrow> E x e \<Longrightarrow> e = g y) \<Longrightarrow>
   es = map g ys"
proof (induction arbitrary: es rule: list_all2_induct)
  case Nil
  then show ?case by simp
next
  case (Cons x xs y ys)
  from Cons.prems(1) obtain e es' where es: "es = e # es'" and e: "E x e"
    and r: "list_all2 E xs es'"
    by (auto simp: list_all2_Cons1)
  have "e = g y"
    using Cons.prems(2) [of x y e] Cons.hyps(1) e by simp
  moreover have "es' = map g ys"
    by (rule Cons.IH [OF r]) (rule Cons.prems(2), auto)
  ultimately show ?case
    using es by simp
qed

lemma list_all2_filter:
  "list_all2 R xs ys \<Longrightarrow> (\<And>x y. R x y \<Longrightarrow> P x = Q y) \<Longrightarrow>
   list_all2 R (filter P xs) (filter Q ys)"
  by (induction rule: list_all2_induct) auto

lemma list_all2_right:
  "list_all2 R xs ys \<Longrightarrow> y \<in> set ys \<Longrightarrow> \<exists>x \<in> set xs. R x y"
  by (induction rule: list_all2_induct) auto

lemma list_all2_left:
  "list_all2 R xs ys \<Longrightarrow> x \<in> set xs \<Longrightarrow> \<exists>y \<in> set ys. R x y"
  by (induction rule: list_all2_induct) auto

lemma reordered_Name: "reordered c c' \<Longrightarrow> fs_Name c' = fs_Name c"
  by (erule reordered.cases) auto

lemma entry_of_Name:
  assumes "saf_stable saf" and "entry_of T S st saf index c e"
  shows "de_Name e = fs_Name c"
proof (cases c)
  case (FsFile n f)
  with assms(2) obtain s u where "saf n f index s = (Inr e, u)"
    by (auto simp: entry_of_def)
  with assms(1) have "de_Name e = n"
    unfolding saf_stable_def by blast
  with FsFile show ?thesis by simp
next
  case (FsDir n oe cs re)
  with assms(2) show ?thesis
    by (auto simp: entry_of_def)
qed

lemma collectDir_entries:
  "collectDir T S st saf index cs base s = (Inr b, u) \<Longrightarrow>
   \<exists>es. b = base @ es
      \<and> list_all2 (entry_of T S st saf index) (filter (\<lambda>c. fs_Name c \<noteq> DefaultDir) cs) es"
proof (induction cs arbitrary: base s)
  case Nil
  then show ?case by simp
next
  case (Cons c cs)
  show ?case
  proof (cases "fs_Name c = DefaultDir")
    case True
    with Cons.prems have "collectDir T S st saf index cs base s = (Inr b, u)"
      by (cases c) auto
    from Cons.IH [OF this] True show ?thesis by simp
  next
    case False
    show ?thesis
    proof (cases c)
      case (FsFile n f)
      with False Cons.prems obtain ent s1 where
        a: "saf n f index s = (Inr ent, s1)"
        and r: "collectDir T S st saf index cs (base @ [ent]) s1 = (Inr b, u)"
        by (auto split: prod.splits sum.splits)
      from Cons.IH [OF r] obtain es where
        es: "b = (base @ [ent]) @ es"
          "list_all2 (entry_of T S st saf index) (filter (\<lambda>c. fs_Name c \<noteq> DefaultDir) cs) es"
        by blast
      have "entry_of T S st saf index c ent"
        using a FsFile by (auto simp: entry_of_def)
      with es False show ?thesis
        by (intro exI [of _ "ent # es"]) simp
    next
      case (FsDir n oe cs' re)
      with False Cons.prems obtain sr de s1 where
        a: "storeDir T S st saf index (FsDir n oe cs' re) s = (Inr (sr, de), s1)"
        and r: "collectDir T S st saf index cs
                  (base @ [de\<lparr>de_Ref := Ref sr, de_Name := n\<rparr>]) s1 = (Inr b, u)"
        by (auto split: prod.splits sum.splits simp del: storeDir.simps)
      from Cons.IH [OF r] obtain es where
        es: "b = (base @ [de\<lparr>de_Ref := Ref sr, de_Name := n\<rparr>]) @ es"
          "list_all2 (entry_of T S st saf index) (filter (\<lambda>c. fs_Name c \<noteq> DefaultDir) cs) es"
        by blast
      have "entry_of T S st saf index c (de\<lparr>de_Ref := Ref sr, de_Name := n\<rparr>)"
        using a FsDir unfolding entry_of_def by (simp del: storeDir.simps) blast
      with es False show ?thesis
        by (intro exI [of _ "de\<lparr>de_Ref := Ref sr, de_Name := n\<rparr> # es"]) simp
    qed
  qed
qed

lemma entry_unique:
  assumes stable: "saf_stable saf"
    and r: "reordered c c'"
    and IH: "\<And>s1 s2 sr1 de1 u1 sr2 de2 u2.
        storeDir T S st saf index c s1 = (Inr (sr1, de1), u1) \<Longrightarrow>
        storeDir T S st saf index c' s2 = (Inr (sr2, de2), u2) \<Longrightarrow>
        Ref sr1 = Ref sr2 \<and> de1 = de2"
    and e: "entry_of T S st saf index c e"
    and e': "entry_of T S st saf index c' e'"
  shows "e' = e"
  using r
proof (cases rule: reordered.cases)
  case (reordered_File n f)
  with e e' obtain s u s' u' where
    "saf n f index s = (Inr e, u)" "saf n f index s' = (Inr e', u')"
    by (auto simp: entry_of_def)
  with stable show ?thesis
    unfolding saf_stable_def by blast
next
  case (reordered_Dir cs cs' cs'' n oe re)
  from e reordered_Dir(1) obtain s u sr de where
    a: "storeDir T S st saf index c s = (Inr (sr, de), u)"
    and a': "e = de\<lparr>de_Ref := Ref sr, de_Name := n\<rparr>"
    unfolding entry_of_def by (auto simp del: storeDir.simps)
  from e' reordered_Dir(2) obtain s' u' sr' de' where
    b: "storeDir T S st saf index c' s' = (Inr (sr', de'), u')"
    and b': "e' = de'\<lparr>de_Ref := Ref sr', de_Name := n\<rparr>"
    unfolding entry_of_def by (auto simp del: storeDir.simps)
  from IH [OF a b] a' b' show ?thesis by simp
qed

lemma storeDir_reordered:
  assumes stable: "saf_stable saf" and f: "faithful T st"
  shows "reordered t1 t2 \<Longrightarrow> distinct_names t1 \<Longrightarrow>
    storeDir T S st saf index t1 s1 = (Inr (sr1, de1), u1) \<Longrightarrow>
    storeDir T S st saf index t2 s2 = (Inr (sr2, de2), u2) \<Longrightarrow>
    Ref sr1 = Ref sr2 \<and> de1 = de2"
proof (induction arbitrary: s1 s2 sr1 de1 u1 sr2 de2 u2 rule: reordered.induct)
  case (reordered_File n f)
  then show ?case by simp
next
  case (reordered_Dir cs cs' cs'' n oe re)
  let ?P = "\<lambda>c. fs_Name c \<noteq> DefaultDir"
  let ?E = "entry_of T S st saf index"
  let ?R = "\<lambda>c c'. reordered c c' \<and> (\<forall>e e'. ?E c e \<longrightarrow> ?E c' e' \<longrightarrow> e' = e)"
  from reordered_Dir.prems(1) have d: "distinct (map fs_Name cs)"
    and dn: "\<And>c. c \<in> set cs \<Longrightarrow> distinct_names c"
    by (auto simp: list_all_iff)
  have R: "list_all2 ?R cs cs'"
  proof (rule list.rel_mono_strong [OF reordered_Dir.IH], goal_cases)
    case (1 c c')
    have r: "reordered c c'"
      using 1(3) by blast
    have ih: "Ref a1 = Ref a2 \<and> b1 = b2"
      if "storeDir T S st saf index c x1 = (Inr (a1, b1), y1)"
        and "storeDir T S st saf index c' x2 = (Inr (a2, b2), y2)"
      for x1 x2 a1 b1 y1 a2 b2 y2
      using 1(3) dn [OF 1(1)] that by blast
    have "e' = e" if "?E c e" "?E c' e'" for e e'
      by (rule entry_unique [OF stable r _ that]) (rule ih)
    with r show ?case by blast
  qed
  have nm: "?P c = ?P c'" if "?R c c'" for c c'
    using that reordered_Name [of c c'] by simp
  have Rf: "list_all2 ?R (filter ?P cs) (filter ?P cs')"
    by (rule list_all2_filter [OF R]) (rule nm)
  from reordered_Dir.prems(2) obtain b1 v1 where
    c1: "collectDir T S st saf index cs [] s1 = (Inr b1, v1)"
    and p1: "packDir T S st (sort_key de_Name b1) v1 = (Inr (sr1, de1), u1)"
    by (auto split: option.splits prod.splits sum.splits)
  from reordered_Dir.prems(3) obtain b2 v2 where
    c2: "collectDir T S st saf index cs'' [] s2 = (Inr b2, v2)"
    and p2: "packDir T S st (sort_key de_Name b2) v2 = (Inr (sr2, de2), u2)"
    by (auto split: option.splits prod.splits sum.splits)
  from collectDir_entries [OF c1] have E1: "list_all2 ?E (filter ?P cs) b1"
    by simp
  from collectDir_entries [OF c2] have E2: "list_all2 ?E (filter ?P cs'') b2"
    by simp
  have sets: "set (filter ?P cs'') = set (filter ?P cs')"
    using mset_eq_setD [OF reordered_Dir.hyps(1)] by simp
  define g where "g = (\<lambda>c'. SOME e. ?E c' e)"
  have g: "?E c' (g c')" if "c' \<in> set (filter ?P cs')" for c'
  proof -
    from that have "c' \<in> set (filter ?P cs'')" unfolding sets .
    from list_all2_left [OF E2 this] obtain e where "?E c' e" by blast
    then show ?thesis
      unfolding g_def by (rule someI)
  qed
  have u1: "e = g c'" if "c \<in> set (filter ?P cs)" "c' \<in> set (filter ?P cs')" "?R c c'" "?E c e"
    for c c' e
    using that(3,4) g [OF that(2)] by blast
  have u2: "e' = g c'" if "c' \<in> set (filter ?P cs'')" "?E c' e'" for c' e'
  proof -
    from that(1) have m: "c' \<in> set (filter ?P cs')" unfolding sets .
    from list_all2_right [OF Rf m] obtain c where c: "c \<in> set (filter ?P cs)" "?R c c'"
      by blast
    from list_all2_left [OF E1 c(1)] obtain e where e: "?E c e" by blast
    from c(2) e that(2) have "e' = e" by blast
    moreover from u1 [OF c(1) m c(2) e] have "e = g c'" .
    ultimately show ?thesis by simp
  qed
  have "b1 = map g (filter ?P cs')"
    by (rule list_all2_fun2 [OF Rf E1]) (rule u1)
  moreover have "b2 = map g (filter ?P cs'')"
    by (rule list_all2_fun [OF E2]) (rule u2)
  ultimately have m: "mset b1 = mset b2"
    using reordered_Dir.hyps(1) by simp
  have "map de_Name b1 = map fs_Name (filter ?P cs)"
    using E1 entry_of_Name [OF stable]
    by (induction rule: list_all2_induct) auto
  then have dist: "distinct (map de_Name b1)"
    using d by (simp add: distinct_map_filter)
  from p2 have "packDir T S st (sort_key de_Name b1) v2 = (Inr (sr2, de2), u2)"
    by (simp only: sort_key_unique [OF m dist])
  from packDir_det [OF f p1 this] show ?case .
qed

text \<open>
  C6. For every directory tree whose directories hold distinct names, two runs of \<^verbatim>\<open>storeDir\<close>
  that succeed, one over the tree and one over a tree that holds the same entries and
  enumerates every directory in another order, from any two states of the store, return
  the same root ref and the same summary entry: the collected entries are sorted by name
  before they are encoded. \<^verbatim>\<open>storeAsFile\<close> is assumed to return the same entry for the same
  file (same name, same content ref), and the backend to name a blob by the hash of its
  bytes.
\<close>

theorem storeDir_is_order_independent:
  assumes "reordered t1 t2"
    and "distinct_names t1"
    and "saf_stable saf"
    and "faithful T st"
    and "storeDir T S st saf index t1 s1 = (Inr (sr1, de1), u1)"
    and "storeDir T S st saf index t2 s2 = (Inr (sr2, de2), u2)"
  shows "Ref sr1 = Ref sr2 \<and> de1 = de2"
  using storeDir_reordered [OF assms(3,4,1,2,5,6)] .

lemma faithful_memStorage: "faithful T (memStorage T)"
  unfolding faithful_def
  by (auto simp: memStorage_def mem_StoreBlob_def bytes_Reader_def Let_def split: if_splits)

lemma saf_stable_plain: "saf_stable plain_saf"
  unfolding saf_stable_def by (auto simp: plain_saf_def)

lemma distinct_names_demo: "distinct_names demo_tree"
  by (simp add: demo_tree_def)

lemma reordered_demo: "reordered demo_tree demo_tree_reordered"
proof -
  have f: "reordered (FsFile n c) (FsFile n c)" for n and c :: "byte list"
    by (rule reordered_File)
  have "reordered (FsDir ''sub'' None [FsFile ''y'' [], FsFile ''x'' [7::byte]] None)
     (FsDir ''sub'' None [FsFile ''x'' [7], FsFile ''y'' []] None)"
    by (rule reordered_Dir [where cs' = "[FsFile ''y'' [], FsFile ''x'' [7]]"])
       (simp_all add: f)
  with f show ?thesis
    unfolding demo_tree_def demo_tree_reordered_def
    by (intro reordered_Dir [where cs' = "[FsFile ''b'' [5],
          FsDir ''sub'' None [FsFile ''x'' [7], FsFile ''y'' []] None,
          FsFile ''.cas'' [9], FsFile ''a'' [3]]"]) simp_all
qed

lemmas plain_eval = plain_saf_def DefaultDir_def packDir_def maxDirEntries_def
  storeDirList_def StoreSchema_def name_schema_def plain_ops_def cas_StoreBlob_def Empty_def
  Zero_def cas_StatBlob_def memStorage_def mem_StoreBlob_def bytes_Reader_def Let_def

lemma demo_tree_run:
  "storeDir plain_ops name_schema (memStorage plain_ops) plain_saf False demo_tree [] =
     (Inr (\<lparr>Ref = [1, 2, 1, 1, 97, 1, 3, 1, 1, 98, 1, 5, 1, 3, 115, 117, 98, 1, 2,
                    1, 1, 120, 1, 7, 1, 1, 121, 1], Size = 27\<rparr>,
           \<lparr>de_Ref = [1, 2, 1, 1, 97, 1, 3, 1, 1, 98, 1, 5, 1, 3, 115, 117, 98, 1, 2,
                      1, 1, 120, 1, 7, 1, 1, 121, 1],
              de_Size = 3, de_Count = 5, de_Name = []\<rparr>),
      [([1, 2, 1, 1, 120, 1, 7, 1, 1, 121, 1], [2, 1, 1, 120, 1, 7, 1, 1, 121, 1]),
       ([1, 2, 1, 1, 97, 1, 3, 1, 1, 98, 1, 5, 1, 3, 115, 117, 98, 1, 2, 1, 1,
         120, 1, 7, 1, 1, 121, 1],
        [2, 1, 1, 97, 1, 3, 1, 1, 98, 1, 5, 1, 3, 115, 117, 98, 1, 2, 1, 1, 120,
         1, 7, 1, 1, 121, 1])])"
  unfolding demo_tree_def by (simp add: plain_eval)

lemma demo_tree_reordered_run:
  "storeDir plain_ops name_schema (memStorage plain_ops) plain_saf False demo_tree_reordered
     [([1, 2, 1, 1, 120, 1, 7, 1, 1, 121, 1], [2, 1, 1, 120, 1, 7, 1, 1, 121, 1]),
       ([1, 2, 1, 1, 97, 1, 3, 1, 1, 98, 1, 5, 1, 3, 115, 117, 98, 1, 2, 1, 1,
         120, 1, 7, 1, 1, 121, 1],
        [2, 1, 1, 97, 1, 3, 1, 1, 98, 1, 5, 1, 3, 115, 117, 98, 1, 2, 1, 1, 120,
         1, 7, 1, 1, 121, 1])] =
     (Inr (\<lparr>Ref = [1, 2, 1, 1, 97, 1, 3, 1, 1, 98, 1, 5, 1, 3, 115, 117, 98, 1, 2,
                    1, 1, 120, 1, 7, 1, 1, 121, 1], Size = 27\<rparr>,
           \<lparr>de_Ref = [1, 2, 1, 1, 97, 1, 3, 1, 1, 98, 1, 5, 1, 3, 115, 117, 98, 1, 2,
                      1, 1, 120, 1, 7, 1, 1, 121, 1],
              de_Size = 3, de_Count = 5, de_Name = []\<rparr>),
      [([1, 2, 1, 1, 120, 1, 7, 1, 1, 121, 1], [2, 1, 1, 120, 1, 7, 1, 1, 121, 1]),
       ([1, 2, 1, 1, 97, 1, 3, 1, 1, 98, 1, 5, 1, 3, 115, 117, 98, 1, 2, 1, 1,
         120, 1, 7, 1, 1, 121, 1],
        [2, 1, 1, 97, 1, 3, 1, 1, 98, 1, 5, 1, 3, 115, 117, 98, 1, 2, 1, 1, 120,
         1, 7, 1, 1, 121, 1])])"
  unfolding demo_tree_reordered_def by (simp add: plain_eval)

theorem storeDir_is_order_independent_witness:
  "reordered demo_tree demo_tree_reordered \<and> distinct_names demo_tree
   \<and> saf_stable plain_saf \<and> faithful plain_ops (memStorage plain_ops)
   \<and> (\<exists>sr1 de1 u1 sr2 de2 u2.
        storeDir plain_ops name_schema (memStorage plain_ops) plain_saf False demo_tree []
          = (Inr (sr1, de1), u1)
      \<and> storeDir plain_ops name_schema (memStorage plain_ops) plain_saf False
          demo_tree_reordered u1 = (Inr (sr2, de2), u2)
      \<and> Ref sr1 = Ref sr2 \<and> de1 = de2)"
proof -
  note r = storeDir_is_order_independent [OF reordered_demo distinct_names_demo
      saf_stable_plain faithful_memStorage demo_tree_run demo_tree_reordered_run]
  show ?thesis
    apply (intro conjI)
        apply (rule reordered_demo)
       apply (rule distinct_names_demo)
      apply (rule saf_stable_plain)
     apply (rule faithful_memStorage)
    apply (intro exI conjI)
       apply (rule demo_tree_run)
      apply (rule demo_tree_reordered_run)
     apply (rule r [THEN conjunct1])
    apply (rule r [THEN conjunct2])
    done
qed

end
